theory Spec2Isabelle
  imports Main "HOL-Library.Word" "HOL-Library.Signed_Division"
begin

unbundle bit_operations_syntax

section \<open>Machine types\<close>

text \<open>
  The sources are C++ for an LP64 target (the build line of the benchmark harness links the
  AVX2 library): \<^verbatim>\<open>uint8_t\<close> is 8 bits, \<^verbatim>\<open>int\<close> and \<^verbatim>\<open>unsigned int\<close> are 32 bits,
  \<^verbatim>\<open>size_t\<close>, \<^verbatim>\<open>uintptr_t\<close> and data pointers are 64 bits. A signed \<^verbatim>\<open>int\<close> is a
  32-bit word read through \<open>sint\<close>; unsigned arithmetic wraps as word arithmetic does.
\<close>

type_synonym u8 = "8 word"
type_synonym u32 = "32 word"
type_synonym i32 = "32 word"
type_synonym usize = "64 word"
type_synonym ptr = "64 word"

text \<open>
  Division of two \<^verbatim>\<open>int\<close> values truncates towards zero. (Division by zero and
  \<^verbatim>\<open>INT_MIN / -1\<close> are undefined in C++; here they give 0 and the wrapped quotient.)
\<close>

definition int_div :: "i32 \<Rightarrow> i32 \<Rightarrow> i32" where
  "int_div a b = word_of_int (sint a sdiv sint b)"

section \<open>Container codec of the benchmark harness (bench/astcbenchcpp.cpp)\<close>

subsection \<open>Three-byte little-endian fields\<close>

text \<open>
  \<^verbatim>\<open>read_u24_le(p)\<close> and \<^verbatim>\<open>write_u24_le(p, v)\<close> take a pointer into a byte buffer; the
  model takes the buffer and the offset \<open>p\<close> of that pointer in it.
\<close>

definition read_u24_le :: "u8 list \<Rightarrow> nat \<Rightarrow> u32" where
  "read_u24_le buf p =
     ucast (buf ! p) OR push_bit 8 (ucast (buf ! (p + 1))) OR push_bit 16 (ucast (buf ! (p + 2)))"

definition write_u24_le :: "u8 list \<Rightarrow> nat \<Rightarrow> u32 \<Rightarrow> u8 list" where
  "write_u24_le buf p v =
     buf[p := ucast v, p + 1 := ucast (drop_bit 8 v), p + 2 := ucast (drop_bit 16 v)]"

subsection \<open>Writing the header\<close>

text \<open>
  \<^verbatim>\<open>write_astc_header(out16, bx, by, bz, sx, sy, sz)\<close> returns nothing and stores 16 bytes
  at \<open>out16\<close>; the model returns the buffer after the stores. The casts
  \<^verbatim>\<open>static_cast<uint8_t>\<close> and \<^verbatim>\<open>static_cast<uint32_t>\<close> keep the low bits.
\<close>

definition write_astc_header ::
  "u8 list \<Rightarrow> i32 \<Rightarrow> i32 \<Rightarrow> i32 \<Rightarrow> i32 \<Rightarrow> i32 \<Rightarrow> i32 \<Rightarrow> u8 list" where
  "write_astc_header out16 bx by bz sx sy sz =
     (let o1 = out16[0 := 0x13, 1 := 0xAB, 2 := 0xA1, 3 := 0x5C,
                     4 := ucast bx, 5 := ucast by, 6 := ucast bz];
          o2 = write_u24_le o1 7 sx;
          o3 = write_u24_le o2 10 sy
      in write_u24_le o3 13 sz)"

text \<open>
  The tail of \<^verbatim>\<open>encode_main\<close> that assembles the output file: a zeroed vector of
  \<open>16 + out.size()\<close> bytes, the header written at its start, the compressed blocks copied
  behind it.
\<close>

definition encode_main_file ::
  "i32 \<Rightarrow> i32 \<Rightarrow> i32 \<Rightarrow> i32 \<Rightarrow> i32 \<Rightarrow> i32 \<Rightarrow> u8 list \<Rightarrow> u8 list" where
  "encode_main_file bx by bz w h d out =
     (let file = replicate (16 + length out) 0;
          file1 = write_astc_header file bx by bz w h d
      in take 16 file1 @ out)"

subsection \<open>Reading the header and sizing the block array\<close>

text \<open>The four \<^verbatim>\<open>std::runtime_error\<close> exits of the container reader in \<^verbatim>\<open>decode_main\<close>.\<close>

datatype decode_error =
    Input_too_small
  | Invalid_ASTC_magic
  | Invalid_ASTC_header
  | Truncated_ASTC_data

type_synonym astc_dims = "i32 \<times> i32 \<times> i32 \<times> i32 \<times> i32 \<times> i32"

text \<open>
  The six fields as \<^verbatim>\<open>decode_main\<close> reads them from the header bytes: three bytes
  converted to \<^verbatim>\<open>int\<close> and three \<^verbatim>\<open>read_u24_le\<close> values cast to \<^verbatim>\<open>int\<close>.
\<close>

definition header_fields :: "u8 list \<Rightarrow> astc_dims" where
  "header_fields hdr =
     (ucast (hdr ! 4), ucast (hdr ! 5), ucast (hdr ! 6),
      read_u24_le hdr 7, read_u24_le hdr 10, read_u24_le hdr 13)"

text \<open>The length check, the magic check, the six fields and the zero check, in this order.\<close>

definition decode_main_header :: "u8 list \<Rightarrow> decode_error + astc_dims" where
  "decode_main_header file =
     (if length file < 16 then Inl Input_too_small
      else if file ! 0 \<noteq> 0x13 \<or> file ! 1 \<noteq> 0xAB \<or> file ! 2 \<noteq> 0xA1 \<or> file ! 3 \<noteq> 0x5C
        then Inl Invalid_ASTC_magic
      else
        case header_fields file of (bx, by, bz, sx, sy, sz) \<Rightarrow>
          if sint bx \<le> 0 \<or> sint by \<le> 0 \<or> sint bz \<le> 0 \<or> sint sx \<le> 0 \<or> sint sy \<le> 0 \<or> sint sz \<le> 0
          then Inl Invalid_ASTC_header
          else Inr (bx, by, bz, sx, sy, sz))"

text \<open>\<^verbatim>\<open>(sx + bx - 1) / bx\<close> in \<^verbatim>\<open>int\<close> arithmetic.\<close>

definition blocks_along :: "i32 \<Rightarrow> i32 \<Rightarrow> i32" where
  "blocks_along s b = int_div (s + b - 1) b"

text \<open>
  \<^verbatim>\<open>total_blocks\<close>: the three counts, each converted to \<^verbatim>\<open>size_t\<close> (sign extension) and
  multiplied in \<^verbatim>\<open>size_t\<close>.
\<close>

definition total_blocks :: "i32 \<Rightarrow> i32 \<Rightarrow> i32 \<Rightarrow> i32 \<Rightarrow> i32 \<Rightarrow> i32 \<Rightarrow> usize" where
  "total_blocks bx by bz sx sy sz =
     (let blocks_x = blocks_along sx bx;
          blocks_y = blocks_along sy by;
          blocks_z = blocks_along sz bz
      in (scast blocks_x :: usize) * scast blocks_y * scast blocks_z)"

text \<open>\<^verbatim>\<open>need = 16 + total_blocks * 16\<close>, the file size the reader asks for.\<close>

definition need_bytes :: "i32 \<Rightarrow> i32 \<Rightarrow> i32 \<Rightarrow> i32 \<Rightarrow> i32 \<Rightarrow> i32 \<Rightarrow> usize" where
  "need_bytes bx by bz sx sy sz = 16 + total_blocks bx by bz sx sy sz * 16"

text \<open>
  The container reader of \<^verbatim>\<open>decode_main\<close> up to the point where the codec is set up:
  the header, then the check of the file size against \<open>need\<close>. It yields the header
  fields and \<open>total_blocks\<close>.
\<close>

definition decode_main_blocks :: "u8 list \<Rightarrow> decode_error + (astc_dims \<times> usize)" where
  "decode_main_blocks file =
     (case decode_main_header file of
        Inl e \<Rightarrow> Inl e
      | Inr (bx, by, bz, sx, sy, sz) \<Rightarrow>
          if length file < unat (need_bytes bx by bz sx sy sz) then Inl Truncated_ASTC_data
          else Inr ((bx, by, bz, sx, sy, sz), total_blocks bx by bz sx sy sz))"

section \<open>Bridge to the codec (astc/native/internal/astcenc/bridge.cpp)\<close>

subsection \<open>The codec's interface\<close>

text \<open>
  Modelled from the spec: the codec's header \<^verbatim>\<open>astcenc.h\<close> is not among the sources. Of the
  codec's error codes the bridge names three; every other code of the codec is
  \<open>ASTCENC_ERR_CODEC n\<close>. The bridge returns the code as an \<^verbatim>\<open>int\<close>.
\<close>

datatype astcenc_error =
    ASTCENC_SUCCESS
  | ASTCENC_ERR_OUT_OF_MEM
  | ASTCENC_ERR_BAD_PARAM
  | ASTCENC_ERR_CODEC nat

text \<open>
  The element kinds, with the values that \<^verbatim>\<open>bridge.h\<close> documents for its \<^verbatim>\<open>data_type\<close>
  and \<^verbatim>\<open>out_type\<close> parameters: 0 = u8, 1 = f16, 2 = f32.
\<close>

definition ASTCENC_TYPE_U8 :: i32 where "ASTCENC_TYPE_U8 = 0"
definition ASTCENC_TYPE_F16 :: i32 where "ASTCENC_TYPE_F16 = 1"
definition ASTCENC_TYPE_F32 :: i32 where "ASTCENC_TYPE_F32 = 2"

text \<open>
  \<^verbatim>\<open>astcenc_image\<close>: the three dimensions, the element kind and the table of slice
  pointers (\<open>None\<close> is the null table pointer).
\<close>

record astcenc_image =
  img_dim_x :: u32
  img_dim_y :: u32
  img_dim_z :: u32
  img_data_type :: i32
  img_data :: "ptr list option"

text \<open>
  Swizzles: \<^verbatim>\<open>astc_native_swz\<close> and the codec's \<^verbatim>\<open>astcenc_swz\<close> have the same values
  (R = 0, G = 1, B = 2, A = 3, 0 = 4, 1 = 5, Z = 6), and the casts keep them.
\<close>

record astc_native_swizzle =
  swz_r :: i32
  swz_g :: i32
  swz_b :: i32
  swz_a :: i32

type_synonym astcenc_swizzle = "i32 \<times> i32 \<times> i32 \<times> i32"

definition makeSwizzle :: "astc_native_swizzle option \<Rightarrow> astcenc_swizzle" where
  "makeSwizzle in_swz =
     (case in_swz of
        None \<Rightarrow> (0, 1, 2, 3)
      | Some s \<Rightarrow> (swz_r s, swz_g s, swz_b s, swz_a s))"

subsection \<open>Slice tables\<close>

text \<open>
  Every entry point that builds a slice table runs the loop
  \<^verbatim>\<open>for (unsigned int z = 0; z < dim_z; z++) slices[z] = base + static_cast<size_t>(z) * slice_stride;\<close>
  over a \<^verbatim>\<open>uint8_t*\<close>, \<^verbatim>\<open>uint16_t*\<close> or \<^verbatim>\<open>float*\<close> base. Adding \<open>n\<close> to a pointer to
  elements of \<open>esz\<close> bytes adds \<open>n * esz\<close> to the address. \<open>slice_loop\<close> is the loop from
  the current \<open>z\<close> on.
\<close>

function slice_loop :: "ptr \<Rightarrow> usize \<Rightarrow> usize \<Rightarrow> u32 \<Rightarrow> u32 \<Rightarrow> ptr list \<Rightarrow> ptr list" where
  "slice_loop base esz slice_stride dim_z z slices =
     (if z < dim_z
      then slice_loop base esz slice_stride dim_z (z + 1)
             (slices[unat z := base + ucast z * slice_stride * esz])
      else slices)"
  by pat_completeness auto
termination
proof (relation "measure (\<lambda>(base, esz, slice_stride, dim_z, z, slices). unat dim_z - unat z)")
  show "wf (measure (\<lambda>(base, esz, slice_stride, dim_z, z, slices). unat dim_z - unat z))"
    by simp
next
  fix base esz slice_stride :: usize and dim_z z :: u32 and slices :: "ptr list"
  assume a: "z < dim_z"
  have "unat dim_z < 2 ^ 32" using unsigned_less [of dim_z, where 'a=nat] by simp
  then have "unat z + 1 < 2 ^ 32" using a by (simp add: word_less_nat_alt)
  then have "unat (z + 1) = Suc (unat z)" by (simp add: unat_word_ariths)
  then show "((base, esz, slice_stride, dim_z, z + 1,
               slices[unat z := base + ucast z * slice_stride * esz]),
              (base, esz, slice_stride, dim_z, z, slices))
             \<in> measure (\<lambda>(base, esz, slice_stride, dim_z, z, slices). unat dim_z - unat z)"
    using a by (simp add: word_less_nat_alt)
qed

declare slice_loop.simps [simp del]

text \<open>
  \<^verbatim>\<open>slice_stride = size_t(dim_x) * size_t(dim_y) * 4\<close>, in elements.
\<close>

definition slice_stride_of :: "u32 \<Rightarrow> u32 \<Rightarrow> usize" where
  "slice_stride_of dim_x dim_y = (ucast dim_x :: usize) * ucast dim_y * 4"

subsection \<open>Room for the tables\<close>

text \<open>
  The compress and decompress calls take their table from the stack, with
  \<^verbatim>\<open>ASTC_NATIVE_ALLOCA(sizeof(void*) * dim_z)\<close>; the images that own their table take it
  from the heap, with \<^verbatim>\<open>new void*[dim_z]\<close>. Neither request is checked, and \<open>dim_z\<close> can be
  any nonzero \<^verbatim>\<open>unsigned int\<close>. How much room there is depends on the thread and on the
  moment of the call, so it is a parameter: \<open>stack_free\<close> is the number of bytes that the
  stack of the calling thread can still provide when the call is made, \<open>heap_free\<close> the
  number of bytes that \<^verbatim>\<open>operator new\<close> can provide when it is asked. A request within it
  gives a table of \<open>dim_z\<close> pointers whose content is not initialised (here: null pointers).
  A request beyond it gives no table. On the stack the behaviour of \<^verbatim>\<open>alloca\<close> is then
  undefined: the block lies beyond the end of the stack, and the thread faults when the
  block is probed or when the loop stores into it. On the heap \<^verbatim>\<open>std::bad_alloc\<close> leaves the
  \<^verbatim>\<open>extern "C"\<close> function. Either way the call returns nothing, and the thread does not go
  on. This is the value \<open>None\<close>, here and in every function below that may end so.
\<close>

definition alloca_slices :: "nat \<Rightarrow> u32 \<Rightarrow> ptr list option" where
  "alloca_slices stack_free dim_z =
     (if unat ((8 :: usize) * ucast dim_z) \<le> stack_free
      then Some (replicate (unat dim_z) 0) else None)"

definition new_slices :: "nat \<Rightarrow> u32 \<Rightarrow> ptr list option" where
  "new_slices heap_free dim_z =
     (if 8 * unat dim_z \<le> heap_free then Some (replicate (unat dim_z) 0) else None)"

subsection \<open>Images that own their slice table\<close>

text \<open>
  \<^verbatim>\<open>astc_native_image_init_u8/f16/f32\<close> differ in the element kind they store and in the
  type of \<open>base\<close> only; \<open>image_init\<close> is their common body, with the kind and its element
  size as parameters. \<open>imgp\<close> is the image the pointer refers to (\<open>None\<close> for a null
  pointer); the result is the error code and the image afterwards. The table is replaced
  when there is none or when the depth changes, and kept otherwise; \<open>heap_free\<close> is what
  the heap can provide once the old table has been released.
\<close>

definition image_init ::
  "i32 \<Rightarrow> usize \<Rightarrow> nat \<Rightarrow> astcenc_image option \<Rightarrow> u32 \<Rightarrow> u32 \<Rightarrow> u32 \<Rightarrow> ptr
     \<Rightarrow> (astcenc_error \<times> astcenc_image option) option" where
  "image_init data_type esz heap_free imgp dim_x dim_y dim_z rgba =
     (case imgp of
        None \<Rightarrow> Some (ASTCENC_ERR_BAD_PARAM, imgp)
      | Some img \<Rightarrow>
          if rgba = 0 \<or> dim_x = 0 \<or> dim_y = 0 \<or> dim_z = 0
          then Some (ASTCENC_ERR_BAD_PARAM, imgp)
          else
            case (case img_data img of
                    None \<Rightarrow> new_slices heap_free dim_z
                  | Some old \<Rightarrow>
                      if img_dim_z img \<noteq> dim_z then new_slices heap_free dim_z else Some old) of
              None \<Rightarrow> None
            | Some data \<Rightarrow>
                let slice_stride = slice_stride_of dim_x dim_y;
                    data1 = slice_loop rgba esz slice_stride dim_z 0 data
                in Some (ASTCENC_SUCCESS,
                         Some (img\<lparr>img_dim_x := dim_x, img_dim_y := dim_y, img_dim_z := dim_z,
                                   img_data_type := data_type, img_data := Some data1\<rparr>)))"




text \<open>
  The invariant of such an image: its table, when it has one, has \<open>img_dim_z\<close> entries.
  An image made by \<^verbatim>\<open>astc_native_image_create_u8/f16/f32\<close> has no table, and \<open>image_init\<close>
  keeps the invariant.
\<close>

definition image_table_ok :: "astcenc_image \<Rightarrow> bool" where
  "image_table_ok img =
     (case img_data img of None \<Rightarrow> True | Some t \<Rightarrow> length t = unat (img_dim_z img))"

subsection \<open>Transient images of the compress and decompress calls\<close>

text \<open>
  The loops by which \<^verbatim>\<open>astc_native_compress_image_ex\<close> fills the table \<open>slices\<close> that it
  has taken from the stack, for the element kind it is given; \<open>None\<close> when the kind is none
  of the three.
\<close>

definition transient_slices ::
  "i32 \<Rightarrow> u32 \<Rightarrow> u32 \<Rightarrow> u32 \<Rightarrow> ptr \<Rightarrow> ptr list \<Rightarrow> ptr list option" where
  "transient_slices data_type dim_x dim_y dim_z rgba slices =
     (let slice_stride = slice_stride_of dim_x dim_y
      in if data_type = ASTCENC_TYPE_U8
           then Some (slice_loop rgba 1 slice_stride dim_z 0 slices)
         else if data_type = ASTCENC_TYPE_F16
           then Some (slice_loop rgba 2 slice_stride dim_z 0 slices)
         else if data_type = ASTCENC_TYPE_F32
           then Some (slice_loop rgba 4 slice_stride dim_z 0 slices)
         else None)"

text \<open>
  The first half of \<^verbatim>\<open>astc_native_compress_image_ex\<close>: the argument checks, the table
  and the image handed to the codec. The result is \<open>Some (Inl e)\<close> when the call returns
  \<open>e\<close> at once, \<open>Some (Inr img)\<close> when it goes on to the codec with \<open>img\<close>, and \<open>None\<close> when
  the stack has no room for the table.
\<close>

definition compress_image_view ::
  "nat \<Rightarrow> ptr \<Rightarrow> i32 \<Rightarrow> u32 \<Rightarrow> u32 \<Rightarrow> u32 \<Rightarrow> ptr \<Rightarrow> ptr
     \<Rightarrow> (astcenc_error + astcenc_image) option" where
  "compress_image_view stack_free ctxp data_type dim_x dim_y dim_z rgba out_data =
     (if ctxp = 0 \<or> rgba = 0 \<or> out_data = 0 \<or> dim_x = 0 \<or> dim_y = 0 \<or> dim_z = 0
      then Some (Inl ASTCENC_ERR_BAD_PARAM)
      else case alloca_slices stack_free dim_z of
             None \<Rightarrow> None
           | Some slices \<Rightarrow>
               (case transient_slices data_type dim_x dim_y dim_z rgba slices of
                  None \<Rightarrow> Some (Inl ASTCENC_ERR_BAD_PARAM)
                | Some slices1 \<Rightarrow>
                    Some (Inr \<lparr>img_dim_x = dim_x, img_dim_y = dim_y, img_dim_z = dim_z,
                               img_data_type = data_type, img_data = Some slices1\<rparr>)))"

subsection \<open>Progress dispatch\<close>

text \<open>
  The state of one thread that the progress routing reads and writes: the thread-local
  \<^verbatim>\<open>astc_native_tls_progress_handle\<close> (initially 0) and, in order, the calls of the sink
  \<^verbatim>\<open>astc_native_go_progress(handle, progress)\<close> made on this thread. The progress value is
  a \<^verbatim>\<open>float\<close> that the bridge passes on untouched; its type is the parameter \<open>'p\<close>.
\<close>

record 'p thread_state =
  astc_native_tls_progress_handle :: ptr
  sink_calls :: "(ptr \<times> 'p) list"

text \<open>
  The codec and the sink are not part of the sources. What they do on the calling thread
  during one \<^verbatim>\<open>astcenc_compress_image\<close> is given as data: the codec invokes the
  progress callback of its context some number of times and returns an error code; the
  sink, each time it is called, may call \<^verbatim>\<open>astc_native_compress_image_ex\<close> again on the
  same thread. (The callback of a context is the trampoline
  \<^verbatim>\<open>astc_native_progress_callback\<close> when \<^verbatim>\<open>astc_native_context_alloc_from_data\<close> was
  called with \<^verbatim>\<open>enable_progress_callback\<close>, and none otherwise: such a context raises no
  events.) The thread-local slot is \<^verbatim>\<open>static\<close> in \<^verbatim>\<open>bridge.cpp\<close>, so these calls are the
  only way in which the codec or the sink can reach it.

  \<open>Progress p cs\<close> is one invocation of the callback with value \<open>p\<close>, where the sink (if it
  is reached) makes the calls \<open>cs\<close>. \<open>Compress_image_ex stack_free a evs r\<close> is one call of
  \<^verbatim>\<open>astc_native_compress_image_ex\<close> with its eleven arguments \<open>a\<close>, made when the stack of
  the thread has \<open>stack_free\<close> bytes left, in which the codec raises the events \<open>evs\<close> and
  returns \<open>r\<close>.
\<close>

record compress_args =
  arg_ctxp :: ptr
  arg_data_type :: i32
  arg_dim_x :: u32
  arg_dim_y :: u32
  arg_dim_z :: u32
  arg_rgba :: ptr
  arg_in_swz :: "astc_native_swizzle option"
  arg_out_data :: ptr
  arg_out_len :: usize
  arg_thread_index :: u32
  arg_progress_handle :: ptr

datatype 'p progress_event = Progress 'p "'p bridge_call list"
     and 'p bridge_call =
           Compress_image_ex nat compress_args "'p progress_event list" astcenc_error

text \<open>
  \<^item> \<open>astc_native_compress_image_ex\<close>: the argument checks and the image
    (\<open>compress_image_view\<close>), the swizzle, then the handle is stored in the slot, the codec
    runs, and the old handle is put back.
  \<^item> \<open>astcenc_compress_image\<close>: the codec, raising its events one after the other.
  \<^item> \<open>astc_native_progress_callback\<close>: the trampoline registered as the codec's progress
    callback; it reads the slot and calls the sink unless the handle is 0.
  \<^item> \<open>astc_native_go_progress\<close>: the sink; the call is recorded, then the sink's own calls
    into the bridge run (\<open>sink_reenter\<close>), their results dropped.

  Each gives the state of the thread when it returns. A call that finds no room for its
  table returns nothing, and neither does any of the calls that are active on the thread
  at that moment: all of them are \<open>None\<close>.
\<close>

function astc_native_compress_image_ex ::
      "nat \<Rightarrow> compress_args \<Rightarrow> 'p progress_event list \<Rightarrow> astcenc_error
         \<Rightarrow> 'p thread_state \<Rightarrow> (astcenc_error \<times> 'p thread_state) option"
  and astcenc_compress_image ::
      "ptr \<Rightarrow> astcenc_image \<Rightarrow> astcenc_swizzle \<Rightarrow> ptr \<Rightarrow> usize \<Rightarrow> u32
         \<Rightarrow> 'p progress_event list \<Rightarrow> astcenc_error
         \<Rightarrow> 'p thread_state \<Rightarrow> (astcenc_error \<times> 'p thread_state) option"
  and astc_native_progress_callback ::
      "'p \<Rightarrow> 'p bridge_call list \<Rightarrow> 'p thread_state \<Rightarrow> 'p thread_state option"
  and astc_native_go_progress ::
      "ptr \<Rightarrow> 'p \<Rightarrow> 'p bridge_call list \<Rightarrow> 'p thread_state \<Rightarrow> 'p thread_state option"
  and sink_reenter :: "'p bridge_call list \<Rightarrow> 'p thread_state \<Rightarrow> 'p thread_state option"
where
  "astc_native_compress_image_ex stack_free a evs r st =
     (case compress_image_view stack_free (arg_ctxp a) (arg_data_type a) (arg_dim_x a)
             (arg_dim_y a) (arg_dim_z a) (arg_rgba a) (arg_out_data a) of
        None \<Rightarrow> None
      | Some (Inl e) \<Rightarrow> Some (e, st)
      | Some (Inr img) \<Rightarrow>
          let swz = makeSwizzle (arg_in_swz a);
              old_handle = astc_native_tls_progress_handle st;
              st1 = st\<lparr>astc_native_tls_progress_handle := arg_progress_handle a\<rparr>
          in case astcenc_compress_image (arg_ctxp a) img swz (arg_out_data a)
                    (arg_out_len a) (arg_thread_index a) evs r st1 of
               None \<Rightarrow> None
             | Some res \<Rightarrow>
                 Some (fst res, (snd res)\<lparr>astc_native_tls_progress_handle := old_handle\<rparr>))"
| "astcenc_compress_image ctx img swz out_data out_len thread_index [] r st = Some (r, st)"
| "astcenc_compress_image ctx img swz out_data out_len thread_index (Progress p cs # evs) r st =
     (case astc_native_progress_callback p cs st of
        None \<Rightarrow> None
      | Some st1 \<Rightarrow> astcenc_compress_image ctx img swz out_data out_len thread_index evs r st1)"
| "astc_native_progress_callback progress cs st =
     (let handle = astc_native_tls_progress_handle st
      in if handle \<noteq> 0 then astc_native_go_progress handle progress cs st else Some st)"
| "astc_native_go_progress handle progress cs st =
     sink_reenter cs (st\<lparr>sink_calls := sink_calls st @ [(handle, progress)]\<rparr>)"
| "sink_reenter [] st = Some st"
| "sink_reenter (Compress_image_ex stack_free a evs r # cs) st =
     (case astc_native_compress_image_ex stack_free a evs r st of
        None \<Rightarrow> None
      | Some res \<Rightarrow> sink_reenter cs (snd res))"
  by pat_completeness auto
termination
  by (relation "measure (\<lambda>x. case x of
          Inl (Inl (stack_free, a, evs, r, st)) \<Rightarrow> 4 * size_list size evs + 1
        | Inl (Inr (ctx, img, swz, out_data, out_len, thread_index, evs, r, st)) \<Rightarrow>
            4 * size_list size evs
        | Inr (Inl (p, cs, st)) \<Rightarrow> 4 * size_list size cs + 3
        | Inr (Inr (Inl (h, p, cs, st))) \<Rightarrow> 4 * size_list size cs + 2
        | Inr (Inr (Inr (cs, st))) \<Rightarrow> 4 * size_list size cs + 1)")
     simp_all

text \<open>
  Whether the stack has room for the table of every call of a script: of the call itself
  and of the calls that the sink makes during its events.
\<close>

fun call_fits :: "'p bridge_call \<Rightarrow> bool"
  and events_fit :: "'p progress_event list \<Rightarrow> bool"
  and calls_fit :: "'p bridge_call list \<Rightarrow> bool"
where
  "call_fits (Compress_image_ex stack_free a evs r) =
     (8 * unat (arg_dim_z a) \<le> stack_free \<and> events_fit evs)"
| "events_fit [] = True"
| "events_fit (Progress p cs # evs) = (calls_fit cs \<and> events_fit evs)"
| "calls_fit [] = True"
| "calls_fit (c # cs) = (call_fits c \<and> calls_fit cs)"

subsection \<open>Decompression\<close>





subsection \<open>Block info\<close>

text \<open>
  \<^verbatim>\<open>astc_native_block_info\<close> of \<^verbatim>\<open>bridge.h\<close>. Arrays are lists (4 endpoint modes,
  4 by 2 by 4 endpoint values, 216 weights per plane, 216 partition assignments); the type
  of a \<^verbatim>\<open>float\<close> is the parameter \<open>'f\<close>.
\<close>

record 'f astc_native_block_info =
  bi_profile :: i32
  bi_block_x :: u32
  bi_block_y :: u32
  bi_block_z :: u32
  bi_texel_count :: u32
  bi_is_error_block :: u8
  bi_is_constant_block :: u8
  bi_is_hdr_block :: u8
  bi_is_dual_plane_block :: u8
  bi_partition_count :: u32
  bi_partition_index :: u32
  bi_dual_plane_component :: u32
  bi_color_endpoint_modes :: "u32 list"
  bi_color_level_count :: u32
  bi_weight_level_count :: u32
  bi_weight_x :: u32
  bi_weight_y :: u32
  bi_weight_z :: u32
  bi_color_endpoints :: "'f list list list"
  bi_weight_values_plane1 :: "'f list"
  bi_weight_values_plane2 :: "'f list"
  bi_partition_assignment :: "u8 list"

text \<open>
  Modelled from the spec: the codec's \<^verbatim>\<open>astcenc_block_info\<close> is declared in \<^verbatim>\<open>astcenc.h\<close>,
  which is not among the sources. \<^verbatim>\<open>bridge.h\<close> calls its own record a plain representation
  of it, and the bridge copies field by field and array by array (each \<^verbatim>\<open>memcpy\<close> has the
  size of the destination array), so the codec's record has the same fields, with the four
  classification flags as booleans.
\<close>

record 'f astcenc_block_info =
  cbi_profile :: i32
  cbi_block_x :: u32
  cbi_block_y :: u32
  cbi_block_z :: u32
  cbi_texel_count :: u32
  cbi_is_error_block :: bool
  cbi_is_constant_block :: bool
  cbi_is_hdr_block :: bool
  cbi_is_dual_plane_block :: bool
  cbi_partition_count :: u32
  cbi_partition_index :: u32
  cbi_dual_plane_component :: u32
  cbi_color_endpoint_modes :: "u32 list"
  cbi_color_level_count :: u32
  cbi_weight_level_count :: u32
  cbi_weight_x :: u32
  cbi_weight_y :: u32
  cbi_weight_z :: u32
  cbi_color_endpoints :: "'f list list list"
  cbi_weight_values_plane1 :: "'f list"
  cbi_weight_values_plane2 :: "'f list"
  cbi_partition_assignment :: "u8 list"

text \<open>
  The copy that follows a successful decode, one store per line of the source.
\<close>

definition copy_block_info ::
  "'f astcenc_block_info \<Rightarrow> 'f astc_native_block_info \<Rightarrow> 'f astc_native_block_info" where
  "copy_block_info info out_info =
     out_info\<lparr>
       bi_profile := cbi_profile info,
       bi_block_x := cbi_block_x info,
       bi_block_y := cbi_block_y info,
       bi_block_z := cbi_block_z info,
       bi_texel_count := cbi_texel_count info,
       bi_is_error_block := (if cbi_is_error_block info then 1 else 0),
       bi_is_constant_block := (if cbi_is_constant_block info then 1 else 0),
       bi_is_hdr_block := (if cbi_is_hdr_block info then 1 else 0),
       bi_is_dual_plane_block := (if cbi_is_dual_plane_block info then 1 else 0),
       bi_partition_count := cbi_partition_count info,
       bi_partition_index := cbi_partition_index info,
       bi_dual_plane_component := cbi_dual_plane_component info,
       bi_color_endpoint_modes := cbi_color_endpoint_modes info,
       bi_color_level_count := cbi_color_level_count info,
       bi_weight_level_count := cbi_weight_level_count info,
       bi_weight_x := cbi_weight_x info,
       bi_weight_y := cbi_weight_y info,
       bi_weight_z := cbi_weight_z info,
       bi_color_endpoints := cbi_color_endpoints info,
       bi_weight_values_plane1 := cbi_weight_values_plane1 info,
       bi_weight_values_plane2 := cbi_weight_values_plane2 info,
       bi_partition_assignment := cbi_partition_assignment info\<rparr>"

text \<open>
  \<^verbatim>\<open>astc_native_get_block_info(ctxp, data, out_info)\<close>. \<open>data\<close> is the 16-byte block
  behind the pointer and \<open>out_info\<close> the caller's record behind the pointer (\<open>None\<close> for a
  null pointer); the result is the error code and the caller's record afterwards. The
  codec's \<^verbatim>\<open>astcenc_get_block_info\<close> is the parameter \<open>codec\<close>: it fills a record local
  to the bridge and returns an error code.
\<close>

definition astc_native_get_block_info ::
  "(ptr \<Rightarrow> u8 list \<Rightarrow> astcenc_error \<times> 'f astcenc_block_info) \<Rightarrow> ptr \<Rightarrow> u8 list option
     \<Rightarrow> 'f astc_native_block_info option
     \<Rightarrow> astcenc_error \<times> 'f astc_native_block_info option" where
  "astc_native_get_block_info codec ctxp data out_info =
     (case (data, out_info) of
        (Some block, Some out) \<Rightarrow>
          if ctxp = 0 then (ASTCENC_ERR_BAD_PARAM, out_info)
          else
            let (err, info) = codec ctxp block
            in if err \<noteq> ASTCENC_SUCCESS then (err, out_info)
               else (ASTCENC_SUCCESS, Some (copy_block_info info out))
      | _ \<Rightarrow> (ASTCENC_ERR_BAD_PARAM, out_info))"

section \<open>The block-count arithmetic as the specification words it\<close>

text \<open>
  Over the mathematical integers: the ceiling of a quotient of positive integers, the
  block count \<open>ceil(w/bx) * ceil(h/by) * ceil(d/bz)\<close> and the file size
  \<open>16 + blockCount * 16\<close>. These follow the specification, not the code; the theorems
  below compare the code with them.
\<close>

definition spec_ceil_div :: "int \<Rightarrow> int \<Rightarrow> int" where
  "spec_ceil_div a b = (if a mod b = 0 then a div b else a div b + 1)"

definition spec_blockCount :: "int \<Rightarrow> int \<Rightarrow> int \<Rightarrow> int \<Rightarrow> int \<Rightarrow> int \<Rightarrow> int" where
  "spec_blockCount bx by bz w h d = spec_ceil_div w bx * spec_ceil_div h by * spec_ceil_div d bz"

definition spec_totalFileSize :: "int \<Rightarrow> int \<Rightarrow> int \<Rightarrow> int \<Rightarrow> int \<Rightarrow> int \<Rightarrow> int" where
  "spec_totalFileSize bx by bz w h d = 16 + spec_blockCount bx by bz w h d * 16"

section \<open>The slice layout as the specification words it\<close>

text \<open>
  The element sizes of the three element kinds, and the table of \<open>depth\<close> slice pointers
  whose entry \<open>z\<close> is \<open>base + z * width * height * 4 * elementSize\<close>. Pointers are 64-bit
  addresses, so the sum is taken modulo \<open>2^64\<close>.
\<close>

definition spec_elementSize :: "i32 \<Rightarrow> usize" where
  "spec_elementSize kind =
     (if kind = ASTCENC_TYPE_U8 then 1 else if kind = ASTCENC_TYPE_F16 then 2 else 4)"

definition spec_slice_table :: "ptr \<Rightarrow> u32 \<Rightarrow> u32 \<Rightarrow> u32 \<Rightarrow> usize \<Rightarrow> ptr list" where
  "spec_slice_table base width height depth esz =
     map (\<lambda>z. base + of_nat z * ucast width * ucast height * 4 * esz) [0..<unat depth]"


section \<open>Progress delivery as the specification words it\<close>

text \<open>
  What the sink is to receive from one call: nothing when the call is refused before the
  codec runs or registers the handle 0 (no handle); otherwise, for each progress event of
  the call, in order, exactly one delivery of the call's own handle with the event's value,
  followed by what the calls that the sink makes while handling it deliver in turn.
\<close>

fun spec_call_deliveries :: "'p bridge_call \<Rightarrow> (ptr \<times> 'p) list"
  and spec_event_deliveries :: "ptr \<Rightarrow> 'p progress_event list \<Rightarrow> (ptr \<times> 'p) list"
  and spec_reentry_deliveries :: "'p bridge_call list \<Rightarrow> (ptr \<times> 'p) list"
where
  "spec_call_deliveries (Compress_image_ex stack_free a evs r) =
     (case compress_image_view stack_free (arg_ctxp a) (arg_data_type a) (arg_dim_x a)
             (arg_dim_y a) (arg_dim_z a) (arg_rgba a) (arg_out_data a) of
        Some (Inr img) \<Rightarrow>
          if arg_progress_handle a = 0 then []
          else spec_event_deliveries (arg_progress_handle a) evs
      | _ \<Rightarrow> [])"
| "spec_event_deliveries h [] = []"
| "spec_event_deliveries h (Progress p cs # evs) =
     (h, p) # spec_reentry_deliveries cs @ spec_event_deliveries h evs"
| "spec_reentry_deliveries [] = []"
| "spec_reentry_deliveries (c # cs) = spec_call_deliveries c @ spec_reentry_deliveries cs"
section \<open>Facts about the machine types\<close>

lemma uint_u8_lt: "uint (b::u8) < 256"
  using uint_bounded [of b] by simp

lemma sint_word_of_int_i32:
  "- (2 ^ 31) \<le> k \<Longrightarrow> k < 2 ^ 31 \<Longrightarrow> sint (word_of_int k :: i32) = k"
  by (simp add: sint_sbintrunc' signed_take_bit_int_eq_self)

lemma sint_eq_uint_small: "uint (w::i32) < 2 ^ 31 \<Longrightarrow> sint w = uint w"
proof -
  assume lt: "uint w < 2 ^ 31"
  have "0 \<le> uint w" by simp
  then have "- (2 ^ 31) \<le> uint w" by (rule order_trans [rotated]) simp
  then have "signed_take_bit 31 (uint w) = uint w"
    using lt by (rule signed_take_bit_int_eq_self)
  then show ?thesis by (simp add: sint_uint)
qed

lemma sint_ucast_u8: "sint (ucast (b::u8) :: i32) = uint b"
proof -
  have "uint (ucast b :: i32) = uint b"
    by (simp add: uint_up_ucast is_up)
  moreover have "uint (ucast b :: i32) < 2 ^ 31"
    using uint_u8_lt [of b] by (simp add: uint_up_ucast is_up)
  ultimately show ?thesis by (simp add: sint_eq_uint_small)
qed

lemma uint_eq_sint: "0 \<le> sint (w::i32) \<Longrightarrow> uint w = sint w"
proof -
  assume nn: "0 \<le> sint w"
  have "sint w < 2 ^ 32" using sint_lt [of w] by simp
  then have "take_bit 32 (sint w) = sint w"
    using nn by (simp add: take_bit_int_eq_self)
  moreover have "uint (word_of_int (sint w) :: i32) = take_bit 32 (sint w)"
    unfolding uint_word_of_int_eq by simp
  ultimately show ?thesis by simp
qed

lemma ucast_u8_i32_id:
  assumes "0 \<le> sint (w::i32)" "sint w \<le> 255"
  shows "(ucast (ucast w :: u8) :: i32) = w"
proof -
  have "uint w < 256" "0 \<le> uint w" using assms by (simp_all add: uint_eq_sint)
  then have "take_bit 8 (uint w) = uint w" by (simp add: take_bit_int_eq_self)
  then show ?thesis
    by (simp add: word_uint_eq_iff unsigned_ucast_eq unsigned_take_bit_eq)
qed

lemma take_bit_24_id:
  assumes "0 \<le> sint (w::i32)" "sint w < 2 ^ 24"
  shows "take_bit 24 w = w"
proof -
  have "uint w < 2 ^ 24" "0 \<le> uint w" using assms by (simp_all add: uint_eq_sint)
  then have "take_bit 24 (uint w) = uint w" by (simp add: take_bit_int_eq_self)
  then show "take_bit 24 w = w"
    by (simp add: word_uint_eq_iff unsigned_take_bit_eq)
qed

section \<open>The three-byte fields\<close>

lemma u24_bytes:
  "(ucast (ucast (v::u32) :: u8) :: u32) OR push_bit 8 (ucast (ucast (drop_bit 8 v) :: u8))
     OR push_bit 16 (ucast (ucast (drop_bit 16 v) :: u8)) = take_bit 24 v"
proof (rule bit_word_eqI)
  fix n :: nat
  assume "n < LENGTH(32)"
  consider "n < 8" | "8 \<le> n" "n < 16" | "16 \<le> n" "n < 24" | "24 \<le> n" by linarith
  then show "bit (ucast (ucast v :: u8) OR push_bit 8 (ucast (ucast (drop_bit 8 v) :: u8))
       OR push_bit 16 (ucast (ucast (drop_bit 16 v) :: u8)) :: u32) n = bit (take_bit 24 v) n"
    by cases (auto simp add: bit_simps)
qed

lemma u24_b0:
  "(ucast ((ucast (a::u8) :: u32) OR push_bit 8 (ucast (b::u8)) OR push_bit 16 (ucast (c::u8))) :: u8) = a"
  by (rule bit_word_eqI) (auto simp add: bit_simps dest: bit_imp_le_length)

lemma u24_b1:
  "(ucast (drop_bit 8 ((ucast (a::u8) :: u32) OR push_bit 8 (ucast (b::u8))
      OR push_bit 16 (ucast (c::u8)))) :: u8) = b"
  by (rule bit_word_eqI) (auto simp add: bit_simps dest: bit_imp_le_length)

lemma u24_b2:
  "(ucast (drop_bit 16 ((ucast (a::u8) :: u32) OR push_bit 8 (ucast (b::u8))
      OR push_bit 16 (ucast (c::u8)))) :: u8) = c"
  by (rule bit_word_eqI) (auto simp add: bit_simps dest: bit_imp_le_length)

lemma read_write_u24:
  "p + 2 < length buf \<Longrightarrow> read_u24_le (write_u24_le buf p v) p = take_bit 24 v"
  by (simp add: read_u24_le_def write_u24_le_def u24_bytes)

lemma write_read_u24: "write_u24_le buf p (read_u24_le buf p) = buf"
  by (simp only: read_u24_le_def write_u24_le_def u24_b0 u24_b1 u24_b2 list_update_id)

lemma read_u24_range:
  "0 \<le> sint (read_u24_le buf p) \<and> sint (read_u24_le buf p) < 2 ^ 24"
proof -
  have "read_u24_le buf p = take_bit 24 (read_u24_le buf p)"
    unfolding read_u24_le_def
    by (rule bit_word_eqI) (auto simp add: bit_simps dest: bit_imp_le_length)
  then have "uint (read_u24_le buf p) = take_bit 24 (uint (read_u24_le buf p))"
    by (metis unsigned_take_bit_eq)
  then have lt: "uint (read_u24_le buf p) < 2 ^ 24"
    by (metis take_bit_int_less_exp)
  then have "sint (read_u24_le buf p) = uint (read_u24_le buf p)"
    by (intro sint_eq_uint_small) simp
  with lt show ?thesis by simp
qed

section \<open>The header that \<open>write_astc_header\<close> stores\<close>

lemma header_bytes:
  assumes "16 \<le> length buf"
  shows "write_astc_header buf bx by bz sx sy sz ! 0 = 0x13"
    and "write_astc_header buf bx by bz sx sy sz ! Suc 0 = 0xAB"
    and "write_astc_header buf bx by bz sx sy sz ! 2 = 0xA1"
    and "write_astc_header buf bx by bz sx sy sz ! 3 = 0x5C"
    and "write_astc_header buf bx by bz sx sy sz ! 4 = ucast bx"
    and "write_astc_header buf bx by bz sx sy sz ! 5 = ucast by"
    and "write_astc_header buf bx by bz sx sy sz ! 6 = ucast bz"
    and "read_u24_le (write_astc_header buf bx by bz sx sy sz) 7 = take_bit 24 sx"
    and "read_u24_le (write_astc_header buf bx by bz sx sy sz) 10 = take_bit 24 sy"
    and "read_u24_le (write_astc_header buf bx by bz sx sy sz) 13 = take_bit 24 sz"
    and "length (write_astc_header buf bx by bz sx sy sz) = length buf"
proof -
  have L: "i < 16 \<Longrightarrow> i < length buf" for i using assms by simp
  have N: "buf \<noteq> []" using assms by auto
  show "write_astc_header buf bx by bz sx sy sz ! 0 = 0x13"
    and "write_astc_header buf bx by bz sx sy sz ! Suc 0 = 0xAB"
    and "write_astc_header buf bx by bz sx sy sz ! 2 = 0xA1"
    and "write_astc_header buf bx by bz sx sy sz ! 3 = 0x5C"
    and "write_astc_header buf bx by bz sx sy sz ! 4 = ucast bx"
    and "write_astc_header buf bx by bz sx sy sz ! 5 = ucast by"
    and "write_astc_header buf bx by bz sx sy sz ! 6 = ucast bz"
    and "read_u24_le (write_astc_header buf bx by bz sx sy sz) 7 = take_bit 24 sx"
    and "read_u24_le (write_astc_header buf bx by bz sx sy sz) 10 = take_bit 24 sy"
    and "read_u24_le (write_astc_header buf bx by bz sx sy sz) 13 = take_bit 24 sz"
    and "length (write_astc_header buf bx by bz sx sy sz) = length buf"
    by (simp_all add: write_astc_header_def write_u24_le_def read_u24_le_def Let_def u24_bytes L N)
qed

text \<open>The header reader looks at the first 16 bytes only.\<close>

lemma decode_main_header_take:
  assumes "16 \<le> length f"
  shows "decode_main_header (take 16 f @ rest) = decode_main_header f"
proof -
  have n: "i < 16 \<Longrightarrow> (take 16 f @ rest) ! i = f ! i" for i
    using assms by (simp add: nth_append)
  have l: "\<not> length (take 16 f @ rest) < 16" "\<not> length f < 16"
    using assms by simp_all
  show ?thesis
    unfolding decode_main_header_def header_fields_def read_u24_le_def
    by (simp only: l if_False n)
qed

section \<open>Container header round trip\<close>

text \<open>
  Claim C1. For block dimensions in 1..255 and image dimensions in 1..2^24-1, the header
  that \<open>write_astc_header\<close> stores (in any buffer of at least 16 bytes, and so in the file
  that \<open>encode_main\<close> assembles, whatever the compressed blocks are) is read back by the
  header reader of \<open>decode_main\<close> as exactly the six values written. The three-byte
  encoding and decoding are inverse to each other: reading what was written gives the
  image dimension back, and writing what was read leaves the buffer as it was.
\<close>

theorem header_round_trip:
  assumes bx: "1 \<le> sint bx" "sint bx \<le> 255"
      and "by": "1 \<le> sint by" "sint by \<le> 255"
      and bz: "1 \<le> sint bz" "sint bz \<le> 255"
      and w: "1 \<le> sint w" "sint w \<le> 2 ^ 24 - 1"
      and h: "1 \<le> sint h" "sint h \<le> 2 ^ 24 - 1"
      and d: "1 \<le> sint d" "sint d \<le> 2 ^ 24 - 1"
      and len: "16 \<le> length buf"
      and p: "p + 2 < length buf"
  shows "decode_main_header (write_astc_header buf bx by bz w h d) = Inr (bx, by, bz, w, h, d)
       \<and> decode_main_header (encode_main_file bx by bz w h d out) = Inr (bx, by, bz, w, h, d)
       \<and> read_u24_le (write_u24_le buf p w) p = w
       \<and> read_u24_le (write_u24_le buf p h) p = h
       \<and> read_u24_le (write_u24_le buf p d) p = d
       \<and> write_u24_le buf p (read_u24_le buf p) = buf"
proof -
  have c: "(ucast (ucast bx :: u8) :: i32) = bx" "(ucast (ucast by :: u8) :: i32) = by"
      "(ucast (ucast bz :: u8) :: i32) = bz"
    using bx "by" bz by (simp_all add: ucast_u8_i32_id)
  have t: "take_bit 24 w = w" "take_bit 24 h = h" "take_bit 24 d = d"
    using w h d by (simp_all add: take_bit_24_id)
  have rt: "decode_main_header (write_astc_header b bx by bz w h d) = Inr (bx, by, bz, w, h, d)"
    if "16 \<le> length b" for b
    using that bx "by" bz w h d by (simp add: decode_main_header_def header_fields_def header_bytes [OF that] c t)
  have "16 \<le> length (write_astc_header (replicate (16 + length out) 0) bx by bz w h d)"
    by (simp add: header_bytes(11))
  then have "decode_main_header (encode_main_file bx by bz w h d out) = Inr (bx, by, bz, w, h, d)"
    by (simp add: encode_main_file_def Let_def decode_main_header_take rt)
  moreover have "read_u24_le (write_u24_le buf p v) p = take_bit 24 v" for v
    using p by (rule read_write_u24)
  ultimately show ?thesis
    using rt [OF len] by (simp add: t write_read_u24)
qed

theorem header_round_trip_witness:
  "decode_main_header (write_astc_header (replicate 16 0) 4 4 1 12 8 1) = Inr (4, 4, 1, 12, 8, 1)
   \<and> decode_main_header (encode_main_file 4 4 1 12 8 1 (replicate 96 7)) = Inr (4, 4, 1, 12, 8, 1)
   \<and> read_u24_le (write_u24_le (replicate 16 0) 7 12) 7 = 12"
  using header_round_trip [of 4 4 1 12 8 1 "replicate 16 0" 7 "replicate 96 7"] by simp

section \<open>Block counts\<close>

text \<open>
  \<open>spec_ceil_div\<close> is the ceiling: the least \<open>n\<close> with \<open>a \<le> n * b\<close>. For a positive divisor
  it is the quotient \<open>(a + b - 1) div b\<close> that the code computes.
\<close>

lemma spec_ceil_div_char:
  assumes "0 < b"
  shows "(spec_ceil_div a b - 1) * b < a \<and> a \<le> spec_ceil_div a b * b"
proof -
  have e: "b * (a div b) = a - a mod b" by (simp add: minus_mod_eq_mult_div)
  have m: "0 \<le> a mod b" "a mod b < b" using assms by simp_all
  show ?thesis
  proof (cases "a mod b = 0")
    case True
    with e assms show ?thesis by (simp add: spec_ceil_div_def algebra_simps)
  next
    case False
    with m have "0 < a mod b" by simp
    with m have "a - a mod b < a" "a \<le> b + (a - a mod b)" by linarith+
    with False show ?thesis by (simp add: spec_ceil_div_def algebra_simps e)
  qed
qed

lemma spec_ceil_div_eq:
  assumes "0 < b"
  shows "spec_ceil_div a b = (a + b - 1) div b"
proof (cases "a mod b = 0")
  case True
  then obtain k where k: "a = k * b" by (metis mod_eq_0_iff_dvd dvd_def mult.commute)
  have "(k * b + (b - 1)) div b = k + (b - 1) div b"
    using assms by (simp add: div_mult_self3)
  moreover have "(b - 1) div b = 0" using assms by (simp add: div_pos_pos_trivial)
  ultimately show ?thesis using True assms k by (simp add: spec_ceil_div_def algebra_simps)
next
  case False
  have m: "0 \<le> a mod b" "a mod b < b" using assms by simp_all
  with False have r: "1 \<le> a mod b" by simp
  have "a + b - 1 = (a div b + 1) * b + (a mod b - 1)"
    by (simp add: algebra_simps)
  then have "(a + b - 1) div b = (a div b + 1) + (a mod b - 1) div b"
    using assms by (metis div_mult_self3 less_irrefl add.commute)
  moreover have "(a mod b - 1) div b = 0" using r m by (simp add: div_pos_pos_trivial)
  ultimately show ?thesis using False by (simp add: spec_ceil_div_def)
qed

lemma blocks_along_sint:
  assumes b: "1 \<le> sint b" and s: "1 \<le> sint s" and n: "sint s + sint b \<le> 2 ^ 31"
  shows "sint (blocks_along s b) = spec_ceil_div (sint s) (sint b)"
proof -
  let ?a = "sint s + sint b - 1"
  have "s + b - 1 = word_of_int ?a" by simp
  moreover have "- (2 ^ 31) \<le> ?a" "?a < 2 ^ 31" using b s n by simp_all
  ultimately have a: "sint (s + b - 1) = ?a"
    by (simp only: sint_word_of_int_i32)
  have pos: "0 \<le> ?a" "0 < sint b" using b s by simp_all
  then have q: "?a sdiv sint b = ?a div sint b"
    by (simp add: signed_divide_int_def sgn_if)
  have "0 \<le> ?a div sint b" using pos by (simp add: pos_imp_zdiv_nonneg_iff)
  moreover have "?a div sint b \<le> ?a div 1" using pos by (intro zdiv_mono2) simp_all
  then have "?a div sint b \<le> ?a" by simp
  moreover note this
  ultimately have "sint (word_of_int (?a div sint b) :: i32) = ?a div sint b"
    using \<open>?a < 2 ^ 31\<close> by (intro sint_word_of_int_i32) simp_all
  then show ?thesis
    using b by (simp add: blocks_along_def int_div_def a q spec_ceil_div_eq)
qed


lemma total_blocks_word:
  "total_blocks bx by bz w h d =
     word_of_int (sint (blocks_along w bx) * sint (blocks_along h by) * sint (blocks_along d bz))"
  by (simp only: total_blocks_def Let_def scast_eq of_int_mult)

lemma need_bytes_word:
  "need_bytes bx by bz w h d =
     word_of_int (16 + sint (blocks_along w bx) * sint (blocks_along h by)
                         * sint (blocks_along d bz) * 16)"
proof -
  have "(16 :: usize) = word_of_int 16" by simp
  then show ?thesis
    by (simp only: need_bytes_def total_blocks_word of_int_mult of_int_add)
qed

lemma block_arith:
  assumes "1 \<le> sint bx" "1 \<le> sint by" "1 \<le> sint bz"
      and "1 \<le> sint w" "1 \<le> sint h" "1 \<le> sint d"
      and "sint w + sint bx \<le> 2 ^ 31" "sint h + sint by \<le> 2 ^ 31" "sint d + sint bz \<le> 2 ^ 31"
  shows "uint (total_blocks bx by bz w h d) =
           spec_blockCount (sint bx) (sint by) (sint bz) (sint w) (sint h) (sint d) mod 2 ^ 64"
    and "uint (need_bytes bx by bz w h d) =
           spec_totalFileSize (sint bx) (sint by) (sint bz) (sint w) (sint h) (sint d) mod 2 ^ 64"
proof -
  have x: "sint (blocks_along w bx) = spec_ceil_div (sint w) (sint bx)"
   and y: "sint (blocks_along h by) = spec_ceil_div (sint h) (sint by)"
   and z: "sint (blocks_along d bz) = spec_ceil_div (sint d) (sint bz)"
    using assms by (simp_all add: blocks_along_sint)
  show "uint (total_blocks bx by bz w h d) =
           spec_blockCount (sint bx) (sint by) (sint bz) (sint w) (sint h) (sint d) mod 2 ^ 64"
    by (simp only: total_blocks_word x y z uint_word_of_int spec_blockCount_def) simp
  show "uint (need_bytes bx by bz w h d) =
           spec_totalFileSize (sint bx) (sint by) (sint bz) (sint w) (sint h) (sint d) mod 2 ^ 64"
    by (simp only: need_bytes_word x y z uint_word_of_int spec_blockCount_def
          spec_totalFileSize_def) simp
qed

lemma spec_ceil_div_pos:
  assumes "1 \<le> a" "1 \<le> b" shows "1 \<le> spec_ceil_div a b"
proof -
  have "0 \<le> a div b" using assms by (simp add: pos_imp_zdiv_nonneg_iff)
  moreover have "a mod b = 0 \<Longrightarrow> 1 \<le> a div b"
    using assms by (metis calculation div_by_0 div_mult_mod_eq add.right_neutral mult_zero_left
        not_one_le_zero order_antisym_conv linorder_not_less zless_imp_add1_zle add_0)
  ultimately show ?thesis by (auto simp add: spec_ceil_div_def)
qed

lemma spec_blockCount_pos:
  assumes "1 \<le> bx" "1 \<le> by" "1 \<le> bz" "1 \<le> w" "1 \<le> h" "1 \<le> d"
  shows "1 \<le> spec_blockCount bx by bz w h d"
proof -
  have "1 \<le> spec_ceil_div w bx" "1 \<le> spec_ceil_div h by" "1 \<le> spec_ceil_div d bz"
    using assms by (simp_all add: spec_ceil_div_pos)
  then have "1 * 1 * 1 \<le> spec_ceil_div w bx * spec_ceil_div h by * spec_ceil_div d bz"
    by (intro mult_mono) simp_all
  then show ?thesis by (simp add: spec_blockCount_def)
qed


text \<open>
  Claim C5, as amended. For positive \<open>int\<close> values whose sums \<open>w + bx - 1\<close>, \<open>h + by - 1\<close>,
  \<open>d + bz - 1\<close> do not overflow (every header that the reader accepts is of this kind), the
  code's per-axis counts are the ceilings \<open>ceil(w/bx)\<close>, \<open>ceil(h/by)\<close>, \<open>ceil(d/bz)\<close>;
  \<open>total_blocks\<close> and \<open>need\<close> are the specification's block count and file size
  \<open>16 + blockCount * 16\<close> reduced modulo \<open>2^64\<close> (the arithmetic is in \<open>size_t\<close>), and so
  equal to them whenever the file size is below \<open>2^64\<close>. For block shape 4x4x1 and image
  12x8x1 the block count is 6 and the file size 112.
\<close>

theorem block_count_arith:
  assumes "1 \<le> sint bx" "1 \<le> sint by" "1 \<le> sint bz"
      and "1 \<le> sint w" "1 \<le> sint h" "1 \<le> sint d"
      and "sint w + sint bx \<le> 2 ^ 31" "sint h + sint by \<le> 2 ^ 31" "sint d + sint bz \<le> 2 ^ 31"
  shows "sint (blocks_along w bx) = spec_ceil_div (sint w) (sint bx)
       \<and> sint (blocks_along h by) = spec_ceil_div (sint h) (sint by)
       \<and> sint (blocks_along d bz) = spec_ceil_div (sint d) (sint bz)
       \<and> uint (total_blocks bx by bz w h d) =
           spec_blockCount (sint bx) (sint by) (sint bz) (sint w) (sint h) (sint d) mod 2 ^ 64
       \<and> uint (need_bytes bx by bz w h d) =
           spec_totalFileSize (sint bx) (sint by) (sint bz) (sint w) (sint h) (sint d) mod 2 ^ 64
       \<and> (spec_totalFileSize (sint bx) (sint by) (sint bz) (sint w) (sint h) (sint d) < 2 ^ 64 \<longrightarrow>
            uint (total_blocks bx by bz w h d) =
              spec_blockCount (sint bx) (sint by) (sint bz) (sint w) (sint h) (sint d)
          \<and> uint (need_bytes bx by bz w h d) =
              spec_totalFileSize (sint bx) (sint by) (sint bz) (sint w) (sint h) (sint d))
       \<and> total_blocks 4 4 1 12 8 1 = 6 \<and> need_bytes 4 4 1 12 8 1 = 112"
proof -
  let ?B = "spec_blockCount (sint bx) (sint by) (sint bz) (sint w) (sint h) (sint d)"
  let ?S = "spec_totalFileSize (sint bx) (sint by) (sint bz) (sint w) (sint h) (sint d)"
  have B: "1 \<le> ?B" using assms by (simp add: spec_blockCount_pos)
  have ex: "?S < 2 ^ 64 \<Longrightarrow> ?B mod 2 ^ 64 = ?B \<and> ?S mod 2 ^ 64 = ?S"
    using B by (simp add: spec_totalFileSize_def)
  have c: "total_blocks 4 4 1 12 8 1 = 6" "need_bytes 4 4 1 12 8 1 = 112"
    by (simp_all add: need_bytes_def total_blocks_def blocks_along_def int_div_def
          signed_divide_int_def)
  show ?thesis
    using assms ex c by (simp add: blocks_along_sint block_arith)
qed

theorem block_count_arith_witness:
  "uint (total_blocks 4 4 1 12 8 1) = spec_blockCount 4 4 1 12 8 1
   \<and> spec_blockCount 4 4 1 12 8 1 = 6
   \<and> uint (need_bytes 4 4 1 12 8 1) = spec_totalFileSize 4 4 1 12 8 1
   \<and> spec_totalFileSize 4 4 1 12 8 1 = 112"
  using block_count_arith [of 4 4 1 12 8 1]
  by (simp add: spec_totalFileSize_def spec_blockCount_def spec_ceil_div_def)


text \<open>
  The claim as stated, for all positive integers, fails: the header with block shape 4x4x1
  and image 16777215 x 16777215 x 1048576 is accepted with a block count of 0, where the
  specification's count is \<open>2^64\<close>.
\<close>

theorem block_count_overflow_counterexample:
  "decode_main_blocks
     [0x13, 0xAB, 0xA1, 0x5C, 4, 4, 1, 0xFF, 0xFF, 0xFF, 0xFF, 0xFF, 0xFF, 0, 0, 0x10]
     = Inr ((4, 4, 1, 0xFFFFFF, 0xFFFFFF, 0x100000), 0)
   \<and> spec_blockCount 4 4 1 0xFFFFFF 0xFFFFFF 0x100000 = 2 ^ 64
   \<and> uint (total_blocks 4 4 1 0xFFFFFF 0xFFFFFF 0x100000)
        \<noteq> spec_blockCount 4 4 1 0xFFFFFF 0xFFFFFF 0x100000
   \<and> uint (need_bytes 4 4 1 0xFFFFFF 0xFFFFFF 0x100000)
        \<noteq> spec_totalFileSize 4 4 1 0xFFFFFF 0xFFFFFF 0x100000"
  by (simp add: decode_main_blocks_def decode_main_header_def header_fields_def read_u24_le_def need_bytes_def
        total_blocks_def blocks_along_def int_div_def signed_divide_int_def
        spec_totalFileSize_def spec_blockCount_def spec_ceil_div_def)

section \<open>Monotonicity of the block count\<close>

lemma spec_ceil_div_mono:
  assumes "0 < b" "a \<le> a'"
  shows "spec_ceil_div a b \<le> spec_ceil_div a' b"
  using assms by (simp add: spec_ceil_div_eq zdiv_mono1)

lemma total_blocks_mono:
  assumes pos: "1 \<le> sint bx" "1 \<le> sint by" "1 \<le> sint bz" "1 \<le> sint w" "1 \<le> sint h" "1 \<le> sint d"
      and le: "sint w \<le> sint w'" "sint h \<le> sint h'" "sint d \<le> sint d'"
      and nov: "sint w' + sint bx \<le> 2 ^ 31" "sint h' + sint by \<le> 2 ^ 31" "sint d' + sint bz \<le> 2 ^ 31"
      and fit: "spec_blockCount (sint bx) (sint by) (sint bz) (sint w') (sint h') (sint d') < 2 ^ 64"
  shows "total_blocks bx by bz w h d \<le> total_blocks bx by bz w' h' d'"
proof -
  let ?B = "spec_blockCount (sint bx) (sint by) (sint bz) (sint w) (sint h) (sint d)"
  let ?B' = "spec_blockCount (sint bx) (sint by) (sint bz) (sint w') (sint h') (sint d')"
  have pos': "1 \<le> sint w'" "1 \<le> sint h'" "1 \<le> sint d'" using pos le by simp_all
  have nov0: "sint w + sint bx \<le> 2 ^ 31" "sint h + sint by \<le> 2 ^ 31" "sint d + sint bz \<le> 2 ^ 31"
    using le nov by simp_all
  have c: "0 \<le> spec_ceil_div (sint w) (sint bx)" "0 \<le> spec_ceil_div (sint h) (sint by)"
      "0 \<le> spec_ceil_div (sint d) (sint bz)"
    using pos spec_ceil_div_pos [of "sint w" "sint bx"] spec_ceil_div_pos [of "sint h" "sint by"]
      spec_ceil_div_pos [of "sint d" "sint bz"] by simp_all
  have m: "spec_ceil_div (sint w) (sint bx) \<le> spec_ceil_div (sint w') (sint bx)"
      "spec_ceil_div (sint h) (sint by) \<le> spec_ceil_div (sint h') (sint by)"
      "spec_ceil_div (sint d) (sint bz) \<le> spec_ceil_div (sint d') (sint bz)"
    using pos le by (simp_all add: spec_ceil_div_mono)
  have BB: "?B \<le> ?B'"
    unfolding spec_blockCount_def using c m by (intro mult_mono) simp_all
  have B0: "0 \<le> ?B" using spec_blockCount_pos [OF pos] by simp
  have "uint (total_blocks bx by bz w h d) = ?B mod 2 ^ 64"
    using pos nov0 by (simp add: block_arith)
  also have "\<dots> = ?B" using B0 BB fit by simp
  finally have 1: "uint (total_blocks bx by bz w h d) = ?B" .
  have "uint (total_blocks bx by bz w' h' d') = ?B' mod 2 ^ 64"
    using pos pos' nov by (simp add: block_arith)
  also have "\<dots> = ?B'" using B0 BB fit by simp
  finally have 2: "uint (total_blocks bx by bz w' h' d') = ?B'" .
  show ?thesis using 1 2 BB by (simp add: word_le_def)
qed

text \<open>
  Claim C9, as amended. For positive block and image dimensions, the per-axis counts never
  decrease when the width, the height or the depth grows, and \<open>total_blocks\<close> does not
  decrease when one of the three grows and the others stay, provided the sums
  \<open>w + bx - 1\<close> etc. do not overflow \<open>int\<close> and the block count at the larger image is
  below \<open>2^64\<close>.
\<close>

theorem block_count_monotone:
  assumes "1 \<le> sint bx" "1 \<le> sint by" "1 \<le> sint bz" "1 \<le> sint w" "1 \<le> sint h" "1 \<le> sint d"
      and "sint w \<le> sint w'" "sint w' + sint bx \<le> 2 ^ 31"
          "spec_blockCount (sint bx) (sint by) (sint bz) (sint w') (sint h) (sint d) < 2 ^ 64"
      and "sint h \<le> sint h'" "sint h' + sint by \<le> 2 ^ 31"
          "spec_blockCount (sint bx) (sint by) (sint bz) (sint w) (sint h') (sint d) < 2 ^ 64"
      and "sint d \<le> sint d'" "sint d' + sint bz \<le> 2 ^ 31"
          "spec_blockCount (sint bx) (sint by) (sint bz) (sint w) (sint h) (sint d') < 2 ^ 64"
  shows "total_blocks bx by bz w h d \<le> total_blocks bx by bz w' h d
       \<and> total_blocks bx by bz w h d \<le> total_blocks bx by bz w h' d
       \<and> total_blocks bx by bz w h d \<le> total_blocks bx by bz w h d'
       \<and> sint (blocks_along w bx) \<le> sint (blocks_along w' bx)
       \<and> sint (blocks_along h by) \<le> sint (blocks_along h' by)
       \<and> sint (blocks_along d bz) \<le> sint (blocks_along d' bz)"
proof -
  have "total_blocks bx by bz w h d \<le> total_blocks bx by bz w' h d"
    using assms by (intro total_blocks_mono) simp_all
  moreover have "total_blocks bx by bz w h d \<le> total_blocks bx by bz w h' d"
    using assms by (intro total_blocks_mono) simp_all
  moreover have "total_blocks bx by bz w h d \<le> total_blocks bx by bz w h d'"
    using assms by (intro total_blocks_mono) simp_all
  moreover have "sint (blocks_along w bx) \<le> sint (blocks_along w' bx)"
    "sint (blocks_along h by) \<le> sint (blocks_along h' by)"
    "sint (blocks_along d bz) \<le> sint (blocks_along d' bz)"
    using assms by (simp_all add: blocks_along_sint spec_ceil_div_mono)
  ultimately show ?thesis by simp
qed

theorem block_count_monotone_witness:
  "total_blocks 4 4 1 12 8 1 \<le> total_blocks 4 4 1 13 8 1
   \<and> total_blocks 4 4 1 12 8 1 \<le> total_blocks 4 4 1 12 16 1
   \<and> total_blocks 4 4 1 12 8 1 \<le> total_blocks 4 4 1 12 8 2"
  using block_count_monotone [of 4 4 1 12 8 1 13 16 2]
  by (simp add: spec_blockCount_def spec_ceil_div_def)

text \<open>
  The claim as stated fails where the product wraps: for block shape 4x4x1, height 16777215
  and depth 1048576, the width 16777211 gives more blocks than the width 16777215, which
  gives none.
\<close>

theorem block_count_monotone_counterexample:
  "sint (0xFFFFFB :: i32) \<le> sint (0xFFFFFF :: i32)
   \<and> \<not> total_blocks 4 4 1 0xFFFFFB 0xFFFFFF 0x100000 \<le> total_blocks 4 4 1 0xFFFFFF 0xFFFFFF 0x100000
   \<and> total_blocks 4 4 1 0xFFFFFF 0xFFFFFF 0x100000 = 0"
  by (simp add: total_blocks_def blocks_along_def int_div_def signed_divide_int_def)


section \<open>The errors of the container reader\<close>

lemma take4_magic:
  assumes "16 \<le> length file"
  shows "take 4 file = ([0x13, 0xAB, 0xA1, 0x5C] :: u8 list) \<longleftrightarrow>
         \<not> (file ! 0 \<noteq> 0x13 \<or> file ! 1 \<noteq> 0xAB \<or> file ! 2 \<noteq> 0xA1 \<or> file ! 3 \<noteq> 0x5C)"
proof -
  obtain a b c d rest where f: "file = a # b # c # d # rest"
    using assms by (cases "file"; simp; rename_tac x xs; case_tac xs; simp;
      rename_tac y ys; case_tac ys; simp; rename_tac z zs; case_tac zs; simp)
  show ?thesis by (auto simp add: f)
qed

lemma sint_byte_le0: "sint (ucast (b::u8) :: i32) \<le> 0 \<longleftrightarrow> b = 0"
proof -
  have "uint b \<le> 0 \<longleftrightarrow> uint b = 0" using uint_nonnegative [of b] by linarith
  then show ?thesis by (simp add: sint_ucast_u8 uint_0_iff)
qed

lemma sint_u24_le0: "sint (read_u24_le buf p) \<le> 0 \<longleftrightarrow> read_u24_le buf p = 0"
proof -
  have "0 \<le> sint (read_u24_le buf p)" using read_u24_range by simp
  then have "sint (read_u24_le buf p) \<le> 0 \<longleftrightarrow> sint (read_u24_le buf p) = 0" by linarith
  then show ?thesis by (simp add: signed_eq_0_iff)
qed

lemma sint_u24: "sint (read_u24_le buf p) = uint (read_u24_le buf p)"
  using read_u24_range [of buf p] by (simp add: uint_eq_sint)


text \<open>
  Claim C8, as amended. The container reader of \<open>decode_main\<close> fails with "input too small"
  (Truncated) on fewer than 16 bytes, whatever they are; with "invalid ASTC magic"
  (BadMagic) on at least 16 bytes whose first four are not 13 AB A1 5C; with "invalid ASTC
  header" (InvalidArgument) when the magic matches and one of the six decoded dimensions is
  zero. Otherwise it compares the length of the input with \<open>16 + blockCount * 16\<close> computed in
  \<open>size_t\<close>, that is modulo \<open>2^64\<close>: a shorter input fails with "truncated ASTC data", any
  other is accepted. So every input shorter than \<open>16 + blockCount * 16\<close> is rejected whenever
  that size is below \<open>2^64\<close>.
\<close>

theorem decode_main_errors:
  "(length file < 16 \<longrightarrow> decode_main_blocks file = Inl Input_too_small)
   \<and> (16 \<le> length file \<and> take 4 file \<noteq> [0x13, 0xAB, 0xA1, 0x5C] \<longrightarrow>
        decode_main_blocks file = Inl Invalid_ASTC_magic)
   \<and> (16 \<le> length file \<and> take 4 file = [0x13, 0xAB, 0xA1, 0x5C]
        \<and> header_fields file = (bx, by, bz, sx, sy, sz)
        \<and> (bx = 0 \<or> by = 0 \<or> bz = 0 \<or> sx = 0 \<or> sy = 0 \<or> sz = 0) \<longrightarrow>
        decode_main_blocks file = Inl Invalid_ASTC_header)
   \<and> (16 \<le> length file \<and> take 4 file = [0x13, 0xAB, 0xA1, 0x5C]
        \<and> header_fields file = (bx, by, bz, sx, sy, sz)
        \<and> bx \<noteq> 0 \<and> by \<noteq> 0 \<and> bz \<noteq> 0 \<and> sx \<noteq> 0 \<and> sy \<noteq> 0 \<and> sz \<noteq> 0 \<longrightarrow>
        decode_main_blocks file =
          (if int (length file)
                < spec_totalFileSize (sint bx) (sint by) (sint bz) (sint sx) (sint sy) (sint sz)
                    mod 2 ^ 64
           then Inl Truncated_ASTC_data
           else Inr ((bx, by, bz, sx, sy, sz), total_blocks bx by bz sx sy sz))
        \<and> (spec_totalFileSize (sint bx) (sint by) (sint bz) (sint sx) (sint sy) (sint sz) < 2 ^ 64
             \<and> int (length file)
                  < spec_totalFileSize (sint bx) (sint by) (sint bz) (sint sx) (sint sy) (sint sz)
             \<longrightarrow> decode_main_blocks file = Inl Truncated_ASTC_data))"
proof -
  let ?magic = "[0x13, 0xAB, 0xA1, 0x5C] :: u8 list"
  let ?S = "spec_totalFileSize (sint bx) (sint by) (sint bz) (sint sx) (sint sy) (sint sz)"
  have short: "length file < 16 \<Longrightarrow> decode_main_blocks file = Inl Input_too_small"
    by (simp add: decode_main_blocks_def decode_main_header_def)
  have magic: "decode_main_blocks file = Inl Invalid_ASTC_magic"
    if "16 \<le> length file" "take 4 file \<noteq> ?magic"
    using that take4_magic [OF that(1)]
    by (simp add: decode_main_blocks_def decode_main_header_def)
  have rng: "0 \<le> sint bx \<and> sint bx < 256 \<and> 0 \<le> sint by \<and> sint by < 256
        \<and> 0 \<le> sint bz \<and> sint bz < 256
        \<and> 0 \<le> sint sx \<and> sint sx < 2 ^ 24 \<and> 0 \<le> sint sy \<and> sint sy < 2 ^ 24
        \<and> 0 \<le> sint sz \<and> sint sz < 2 ^ 24"
    if "header_fields file = (bx, by, bz, sx, sy, sz)"
    using that uint_u8_lt [of "file ! 4"] uint_u8_lt [of "file ! 5"] uint_u8_lt [of "file ! 6"]
      read_u24_range [of "file" 7] read_u24_range [of "file" 10] read_u24_range [of "file" 13]
    by (auto simp add: header_fields_def sint_ucast_u8)
  have le0: "sint v \<le> 0 \<longleftrightarrow> v = 0" if "0 \<le> sint v" for v :: i32
  proof -
    have "sint v \<le> 0 \<longleftrightarrow> sint v = 0" using that by linarith
    then show ?thesis by (simp add: signed_eq_0_iff)
  qed
  have zero: "decode_main_blocks file = Inl Invalid_ASTC_header"
    if "16 \<le> length file" "take 4 file = ?magic" "header_fields file = (bx, by, bz, sx, sy, sz)"
       "bx = 0 \<or> by = 0 \<or> bz = 0 \<or> sx = 0 \<or> sy = 0 \<or> sz = 0"
    using that take4_magic [OF that(1)] rng [OF that(3)]
    by (simp add: decode_main_blocks_def decode_main_header_def le0)
  have sized: "decode_main_blocks file =
          (if int (length file) < ?S mod 2 ^ 64 then Inl Truncated_ASTC_data
           else Inr ((bx, by, bz, sx, sy, sz), total_blocks bx by bz sx sy sz))"
    if len: "16 \<le> length file" and m: "take 4 file = ?magic"
      and hf: "header_fields file = (bx, by, bz, sx, sy, sz)"
      and nz: "bx \<noteq> 0" "by \<noteq> 0" "bz \<noteq> 0" "sx \<noteq> 0" "sy \<noteq> 0" "sz \<noteq> 0"
  proof -
    note r = rng [OF hf]
    have p: "1 \<le> sint bx" "1 \<le> sint by" "1 \<le> sint bz" "1 \<le> sint sx" "1 \<le> sint sy" "1 \<le> sint sz"
      using r nz le0 [of bx] le0 [of "by"] le0 [of bz] le0 [of sx] le0 [of sy] le0 [of sz]
      by linarith+
    have hdr: "decode_main_header file = Inr (bx, by, bz, sx, sy, sz)"
      using len m take4_magic [OF len] hf r nz
      by (simp add: decode_main_header_def le0)
    have need: "uint (need_bytes bx by bz sx sy sz) = ?S mod 2 ^ 64"
      using p r by (intro block_arith(2)) simp_all
    have cmp: "length file < unat w \<longleftrightarrow> int (length file) < uint w" for w :: usize
      by (simp add: zless_nat_eq_int_zless flip: nat_uint_eq)
    show ?thesis
      by (simp add: decode_main_blocks_def hdr cmp need)
  qed
  have trunc: "decode_main_blocks file = Inl Truncated_ASTC_data"
    if "16 \<le> length file" "take 4 file = ?magic" "header_fields file = (bx, by, bz, sx, sy, sz)"
       "bx \<noteq> 0" "by \<noteq> 0" "bz \<noteq> 0" "sx \<noteq> 0" "sy \<noteq> 0" "sz \<noteq> 0"
       "?S < 2 ^ 64" "int (length file) < ?S"
  proof -
    have "0 \<le> ?S" using that(11) by linarith
    then have "?S mod 2 ^ 64 = ?S" using that(10) by simp
    then show ?thesis using sized [OF that(1-9)] that(11) by simp
  qed
  show ?thesis using short magic zero sized trunc by blast
qed


theorem decode_main_errors_witness:
  "decode_main_blocks [0, 0, 0, 0, 0, 0, 0, 0, 0, 0, 0, 0, 0, 0, 0] = Inl Input_too_small
   \<and> decode_main_blocks [0x12, 0xAB, 0xA1, 0x5C, 4, 4, 1, 12, 0, 0, 8, 0, 0, 1, 0, 0] = Inl Invalid_ASTC_magic
   \<and> decode_main_blocks [0x13, 0xAB, 0xA1, 0x5C, 0, 4, 1, 12, 0, 0, 8, 0, 0, 1, 0, 0]
        = Inl Invalid_ASTC_header
   \<and> decode_main_blocks [0x13, 0xAB, 0xA1, 0x5C, 4, 4, 1, 12, 0, 0, 8, 0, 0, 1, 0, 0]
        = Inl Truncated_ASTC_data
   \<and> decode_main_blocks ([0x13, 0xAB, 0xA1, 0x5C, 4, 4, 1, 12, 0, 0, 8, 0, 0, 1, 0, 0] @ replicate 96 0)
        = Inr ((4, 4, 1, 12, 8, 1), total_blocks 4 4 1 12 8 1)"
  using decode_main_errors [of "[0, 0, 0, 0, 0, 0, 0, 0, 0, 0, 0, 0, 0, 0, 0]" 0 0 0 0 0 0]
    decode_main_errors [of "[0x12, 0xAB, 0xA1, 0x5C, 4, 4, 1, 12, 0, 0, 8, 0, 0, 1, 0, 0]" 4 4 1 12 8 1]
    decode_main_errors [of "[0x13, 0xAB, 0xA1, 0x5C, 0, 4, 1, 12, 0, 0, 8, 0, 0, 1, 0, 0]" 0 4 1 12 8 1]
    decode_main_errors [of "[0x13, 0xAB, 0xA1, 0x5C, 4, 4, 1, 12, 0, 0, 8, 0, 0, 1, 0, 0]" 4 4 1 12 8 1]
    decode_main_errors [of "[0x13, 0xAB, 0xA1, 0x5C, 4, 4, 1, 12, 0, 0, 8, 0, 0, 1, 0, 0] @ replicate 96 0"
      4 4 1 12 8 1]
  by (simp add: header_fields_def read_u24_le_def spec_totalFileSize_def spec_blockCount_def
        spec_ceil_div_def)

text \<open>
  The last part of the claim as stated fails where \<open>16 + blockCount * 16\<close> does not fit in
  64 bits: a file of the 16 header bytes alone, for block shape 4x4x1 and image
  16777215 x 16777215 x 1048576, is accepted and not rejected as truncated.
\<close>

theorem decode_main_truncation_counterexample:
  "int (length [0x13, 0xAB, 0xA1, 0x5C, 4, 4, 1, 0xFF, 0xFF, 0xFF, 0xFF, 0xFF, 0xFF, 0, 0, 0x10 :: u8])
     < 16 + spec_blockCount 4 4 1 0xFFFFFF 0xFFFFFF 0x100000 * 16
   \<and> decode_main_blocks
       [0x13, 0xAB, 0xA1, 0x5C, 4, 4, 1, 0xFF, 0xFF, 0xFF, 0xFF, 0xFF, 0xFF, 0, 0, 0x10]
     \<noteq> Inl Truncated_ASTC_data"
  by (simp add: decode_main_blocks_def decode_main_header_def header_fields_def read_u24_le_def
        need_bytes_def total_blocks_def blocks_along_def int_div_def signed_divide_int_def
        spec_blockCount_def spec_ceil_div_def)

section \<open>What the header writer does with values out of range\<close>

lemma header_take4:
  assumes "16 \<le> length buf"
  shows "take 4 (write_astc_header buf bx by bz sx sy sz) = [0x13, 0xAB, 0xA1, 0x5C]"
proof -
  let ?h = "write_astc_header buf bx by bz sx sy sz"
  have l: "length ?h = length buf" using assms by (rule header_bytes(11))
  have "take 4 ?h = [?h ! 0, ?h ! Suc 0, ?h ! 2, ?h ! 3]"
    using assms l by (simp add: list_eq_iff_nth_eq nth_Cons' numeral_eq_Suc less_Suc_eq)
  then show ?thesis using header_bytes(1-4) [OF assms] by simp
qed

lemma header_drop16:
  "drop 16 (write_astc_header buf bx by bz sx sy sz) = drop 16 buf"
  by (simp add: write_astc_header_def write_u24_le_def Let_def drop_update_cancel)

text \<open>
  Claim C7, as amended. \<open>write_astc_header\<close> checks nothing and cannot fail (it returns
  nothing, and \<open>encode_main\<close> calls it without a check of the ranges): for all \<open>int\<close>
  arguments it stores the magic, the low 8 bits of each block dimension and the low 24 bits
  of each image dimension, and leaves the rest of the buffer alone. Values in 0..255 and
  0..2^24-1 are stored as they are; larger ones are stored reduced.
\<close>

theorem write_astc_header_truncates:
  assumes "16 \<le> length buf"
  shows "length (write_astc_header buf bx by bz sx sy sz) = length buf
       \<and> take 4 (write_astc_header buf bx by bz sx sy sz) = [0x13, 0xAB, 0xA1, 0x5C]
       \<and> uint (write_astc_header buf bx by bz sx sy sz ! 4) = uint bx mod 2 ^ 8
       \<and> uint (write_astc_header buf bx by bz sx sy sz ! 5) = uint by mod 2 ^ 8
       \<and> uint (write_astc_header buf bx by bz sx sy sz ! 6) = uint bz mod 2 ^ 8
       \<and> uint (read_u24_le (write_astc_header buf bx by bz sx sy sz) 7) = uint sx mod 2 ^ 24
       \<and> uint (read_u24_le (write_astc_header buf bx by bz sx sy sz) 10) = uint sy mod 2 ^ 24
       \<and> uint (read_u24_le (write_astc_header buf bx by bz sx sy sz) 13) = uint sz mod 2 ^ 24
       \<and> drop 16 (write_astc_header buf bx by bz sx sy sz) = drop 16 buf"
proof -
  have b: "uint (ucast v :: u8) = uint v mod 2 ^ 8" for v :: i32
    by (simp only: unsigned_ucast_eq) (simp add: take_bit_eq_mod)
  have t: "uint (take_bit 24 v) = uint v mod 2 ^ 24" for v :: i32
    by (simp only: unsigned_take_bit_eq) (simp only: take_bit_eq_mod)
  show ?thesis
    by (simp only: header_bytes [OF assms] header_take4 [OF assms] header_drop16 b t)
qed

theorem write_astc_header_truncates_witness:
  "write_astc_header [0, 0, 0, 0, 0, 0, 0, 0, 0, 0, 0, 0, 0, 0, 0, 0] 4 4 1 12 8 1 ! 4 = 4
   \<and> read_u24_le (write_astc_header [0, 0, 0, 0, 0, 0, 0, 0, 0, 0, 0, 0, 0, 0, 0, 0] 4 4 1 12 8 1) 7 = 12
   \<and> uint (write_astc_header [0, 0, 0, 0, 0, 0, 0, 0, 0, 0, 0, 0, 0, 0, 0, 0] 256 4 1 0x1000005 8 1 ! 4) = 0
   \<and> uint (read_u24_le (write_astc_header [0, 0, 0, 0, 0, 0, 0, 0, 0, 0, 0, 0, 0, 0, 0, 0] 256 4 1 0x1000005 8 1) 7) = 5"
  using write_astc_header_truncates [of "[0, 0, 0, 0, 0, 0, 0, 0, 0, 0, 0, 0, 0, 0, 0, 0]" 4 4 1 12 8 1]
    write_astc_header_truncates [of "[0, 0, 0, 0, 0, 0, 0, 0, 0, 0, 0, 0, 0, 0, 0, 0]" 256 4 1 16777221 8 1]
  by (simp add: word_uint_eq_iff)

text \<open>
  The claim as stated fails: for a block dimension of 256 and an image width of
  16777221 = 2^24 + 5 a header is written, with a block byte of 0 and a width field of 5,
  and the file that \<open>encode_main\<close> assembles for width 16777221 reads back as width 5.
\<close>

theorem write_astc_header_no_validation_counterexample:
  "2 ^ 24 - 1 < sint (0x1000005 :: i32) \<and> 255 < sint (256 :: i32)
   \<and> write_astc_header [0, 0, 0, 0, 0, 0, 0, 0, 0, 0, 0, 0, 0, 0, 0, 0] 256 4 1 0x1000005 8 1
       = [0x13, 0xAB, 0xA1, 0x5C, 0, 4, 1, 5, 0, 0, 8, 0, 0, 1, 0, 0]
   \<and> encode_main_file 4 4 1 0x1000005 8 1 []
       = [0x13, 0xAB, 0xA1, 0x5C, 4, 4, 1, 5, 0, 0, 8, 0, 0, 1, 0, 0]
   \<and> decode_main_header (encode_main_file 4 4 1 0x1000005 8 1 []) = Inr (4, 4, 1, 5, 8, 1)"
  by code_simp



section \<open>Slice tables\<close>

text \<open>
  The loop fills the entries from \<open>z\<close> up to \<open>dim_z\<close> and leaves the others; run from 0 on a
  table of \<open>dim_z\<close> entries it produces the table of the specification.
\<close>

lemma unat_succ_lt: "(z::u32) < dim_z \<Longrightarrow> unat (z + 1) = Suc (unat z)"
proof -
  assume a: "z < dim_z"
  have "unat dim_z < 2 ^ 32" using unsigned_less [of dim_z, where 'a=nat] by simp
  then have "unat z + 1 < 2 ^ 32" using a by (simp add: word_less_nat_alt)
  then show ?thesis by (simp add: unat_word_ariths)
qed

lemma slice_loop_length: "length (slice_loop base esz st dim_z z slices) = length slices"
  by (induction base esz st dim_z z slices rule: slice_loop.induct)
     (subst slice_loop.simps, simp)

lemma slice_loop_nth:
  "i < length slices \<Longrightarrow>
   slice_loop base esz st dim_z z slices ! i =
     (if unat z \<le> i \<and> i < unat dim_z then base + of_nat i * st * esz else slices ! i)"
proof (induction base esz st dim_z z slices rule: slice_loop.induct)
  case (1 base esz slice_stride dim_z z slices)
  show ?case
  proof (cases "z < dim_z")
    case True
    then have s: "unat (z + 1) = Suc (unat z)" by (rule unat_succ_lt)
    have u: "(ucast z :: usize) = of_nat (unat z)" by simp
    let ?upd = "slices[unat z := base + ucast z * slice_stride * esz]"
    have len: "i < length ?upd" using 1(2) by simp
    have step: "slice_loop base esz slice_stride dim_z z slices ! i =
                slice_loop base esz slice_stride dim_z (z + 1) ?upd ! i"
      using True by (subst slice_loop.simps) simp
    have ih: "slice_loop base esz slice_stride dim_z (z + 1) ?upd ! i =
        (if Suc (unat z) \<le> i \<and> i < unat dim_z then base + of_nat i * slice_stride * esz
         else ?upd ! i)"
      using 1(1) [OF True len] by (simp only: s)
    have zlt: "unat z < unat dim_z" using True by (simp add: word_less_nat_alt)
    show ?thesis
    proof (cases "i = unat z")
      case True
      with ih step zlt 1(2) show ?thesis by (simp only: u) simp
    next
      case False
      with ih step zlt 1(2) show ?thesis by (simp only: u) (auto simp add: le_Suc_eq)
    qed
  next
    case False
    then have "slice_loop base esz slice_stride dim_z z slices = slices"
      by (subst slice_loop.simps) simp
    moreover have "\<not> (unat z \<le> i \<and> i < unat dim_z)"
      using False by (simp add: word_less_nat_alt)
    ultimately show ?thesis by auto
  qed
qed

lemma slice_loop_table:
  assumes "length slices = unat dim_z"
  shows "slice_loop base esz (slice_stride_of dim_x dim_y) dim_z 0 slices
           = spec_slice_table base dim_x dim_y dim_z esz"
proof (rule nth_equalityI)
  show "length (slice_loop base esz (slice_stride_of dim_x dim_y) dim_z 0 slices)
          = length (spec_slice_table base dim_x dim_y dim_z esz)"
    using assms by (simp add: slice_loop_length spec_slice_table_def)
next
  fix i
  assume "i < length (slice_loop base esz (slice_stride_of dim_x dim_y) dim_z 0 slices)"
  then have i: "i < unat dim_z" using assms by (simp add: slice_loop_length)
  then show "slice_loop base esz (slice_stride_of dim_x dim_y) dim_z 0 slices ! i
               = spec_slice_table base dim_x dim_y dim_z esz ! i"
    using assms
    by (simp add: slice_loop_nth spec_slice_table_def slice_stride_of_def mult.assoc)
qed

lemma alloca_size:
  fixes dim_z :: u32
  shows "unat ((8 :: usize) * ucast dim_z) = 8 * unat dim_z"
proof -
  have "unat dim_z < 2 ^ 32" using unsigned_less [of dim_z, where 'a=nat] by simp
  then have "8 * unat dim_z < 2 ^ 64" by simp
  moreover have "(8 :: usize) * ucast dim_z = of_nat (8 * unat dim_z)" by simp
  ultimately show ?thesis by (simp only: unat_of_nat) simp
qed

lemma alloca_slices_eq:
  "alloca_slices stack_free dim_z =
     (if 8 * unat dim_z \<le> stack_free then Some (replicate (unat dim_z) 0) else None)"
  by (simp only: alloca_slices_def alloca_size)

lemma spec_slice_table_nth:
  "length (spec_slice_table base w h d esz) = unat d"
  "z < unat d \<Longrightarrow>
     spec_slice_table base w h d esz ! z = base + of_nat z * ucast w * ucast h * 4 * esz"
  by (simp_all add: spec_slice_table_def)


lemma slice_loop_replicate:
  "slice_loop base esz (slice_stride_of dim_x dim_y) dim_z 0 (replicate (unat dim_z) 0)
     = spec_slice_table base dim_x dim_y dim_z esz"
  by (rule slice_loop_table) simp

lemma kinds_distinct:
  "ASTCENC_TYPE_U8 \<noteq> ASTCENC_TYPE_F16" "ASTCENC_TYPE_U8 \<noteq> ASTCENC_TYPE_F32"
  "ASTCENC_TYPE_F16 \<noteq> ASTCENC_TYPE_F32" "ASTCENC_TYPE_F16 \<noteq> ASTCENC_TYPE_U8"
  "ASTCENC_TYPE_F32 \<noteq> ASTCENC_TYPE_U8" "ASTCENC_TYPE_F32 \<noteq> ASTCENC_TYPE_F16"
  by (simp_all add: ASTCENC_TYPE_U8_def ASTCENC_TYPE_F16_def ASTCENC_TYPE_F32_def)

subsection \<open>The image of a compress call\<close>

lemma transient_slices_table:
  assumes "data_type = ASTCENC_TYPE_U8 \<or> data_type = ASTCENC_TYPE_F16 \<or> data_type = ASTCENC_TYPE_F32"
  shows "transient_slices data_type dim_x dim_y dim_z rgba (replicate (unat dim_z) 0)
           = Some (spec_slice_table rgba dim_x dim_y dim_z (spec_elementSize data_type))"
  using assms
  by (auto simp add: transient_slices_def Let_def slice_loop_replicate spec_elementSize_def
        kinds_distinct)

lemma compress_image_view_table:
  assumes "ctxp \<noteq> 0" "rgba \<noteq> 0" "out_data \<noteq> 0" "dim_x \<noteq> 0" "dim_y \<noteq> 0" "dim_z \<noteq> 0"
      and "data_type = ASTCENC_TYPE_U8 \<or> data_type = ASTCENC_TYPE_F16 \<or> data_type = ASTCENC_TYPE_F32"
  shows "compress_image_view stack_free ctxp data_type dim_x dim_y dim_z rgba out_data =
           (if 8 * unat dim_z \<le> stack_free
            then Some (Inr \<lparr>img_dim_x = dim_x, img_dim_y = dim_y, img_dim_z = dim_z,
                            img_data_type = data_type,
                            img_data = Some (spec_slice_table rgba dim_x dim_y dim_z
                                               (spec_elementSize data_type))\<rparr>)
            else None)"
  using assms by (simp add: compress_image_view_def alloca_slices_eq transient_slices_table)

lemma compress_image_view_fits:
  "8 * unat dim_z \<le> stack_free \<Longrightarrow>
   compress_image_view stack_free ctxp data_type dim_x dim_y dim_z rgba out_data \<noteq> None"
  by (simp add: compress_image_view_def alloca_slices_eq split: option.splits)

subsection \<open>The image after \<open>image_init\<close>\<close>

lemma image_init_table:
  assumes "image_table_ok img" "rgba \<noteq> 0" "dim_x \<noteq> 0" "dim_y \<noteq> 0" "dim_z \<noteq> 0"
  shows "image_init data_type esz heap_free (Some img) dim_x dim_y dim_z rgba =
           (if (img_data img \<noteq> None \<and> img_dim_z img = dim_z) \<or> 8 * unat dim_z \<le> heap_free
            then Some (ASTCENC_SUCCESS,
                   Some (img\<lparr>img_dim_x := dim_x, img_dim_y := dim_y, img_dim_z := dim_z,
                             img_data_type := data_type,
                             img_data := Some (spec_slice_table rgba dim_x dim_y dim_z esz)\<rparr>))
            else None)"
proof -
  let ?req = "case img_data img of
                None \<Rightarrow> new_slices heap_free dim_z
              | Some old \<Rightarrow> if img_dim_z img \<noteq> dim_z then new_slices heap_free dim_z else Some old"
  let ?ok = "(img_data img \<noteq> None \<and> img_dim_z img = dim_z) \<or> 8 * unat dim_z \<le> heap_free"
  have unfold: "image_init data_type esz heap_free (Some img) dim_x dim_y dim_z rgba =
      (case ?req of
         None \<Rightarrow> None
       | Some data \<Rightarrow>
           Some (ASTCENC_SUCCESS,
                 Some (img\<lparr>img_dim_x := dim_x, img_dim_y := dim_y, img_dim_z := dim_z,
                           img_data_type := data_type,
                           img_data := Some (slice_loop rgba esz (slice_stride_of dim_x dim_y)
                                               dim_z 0 data)\<rparr>)))"
    using assms(2-5) by (auto simp add: image_init_def Let_def split: option.splits)
  show ?thesis
  proof (cases ?ok)
    case True
    then have "\<exists>data. ?req = Some data \<and> length data = unat dim_z"
      using assms(1)
      by (cases "img_data img"; cases "img_dim_z img = dim_z")
         (auto simp add: image_table_ok_def new_slices_def)
    then obtain data where d: "?req = Some data" and len: "length data = unat dim_z"
      by blast
    have "slice_loop rgba esz (slice_stride_of dim_x dim_y) dim_z 0 data
            = spec_slice_table rgba dim_x dim_y dim_z esz"
      using len by (rule slice_loop_table)
    with True d unfold show ?thesis by simp
  next
    case False
    then have "?req = None"
      by (auto simp add: new_slices_def split: option.splits)
    with False unfold show ?thesis by simp
  qed
qed

text \<open>The table invariant is kept by \<open>image_init\<close>.\<close>

lemma image_init_table_ok:
  assumes "image_table_ok img"
      and "image_init data_type esz heap_free (Some img) dim_x dim_y dim_z rgba
             = Some (e, Some img')"
  shows "image_table_ok img'"
proof (cases "rgba = 0 \<or> dim_x = 0 \<or> dim_y = 0 \<or> dim_z = 0")
  case True
  then have "image_init data_type esz heap_free (Some img) dim_x dim_y dim_z rgba
               = Some (ASTCENC_ERR_BAD_PARAM, Some img)"
    by (simp add: image_init_def)
  with assms show ?thesis by simp
next
  case False
  then have "image_init data_type esz heap_free (Some img) dim_x dim_y dim_z rgba =
           (if (img_data img \<noteq> None \<and> img_dim_z img = dim_z) \<or> 8 * unat dim_z \<le> heap_free
            then Some (ASTCENC_SUCCESS,
                   Some (img\<lparr>img_dim_x := dim_x, img_dim_y := dim_y, img_dim_z := dim_z,
                             img_data_type := data_type,
                             img_data := Some (spec_slice_table rgba dim_x dim_y dim_z esz)\<rparr>))
            else None)"
    using assms(1) by (simp add: image_init_table)
  with assms(2) show ?thesis
    by (auto simp add: image_table_ok_def spec_slice_table_nth(1) split: if_splits)
qed

subsection \<open>The decompress calls\<close>








section \<open>The slice layout\<close>



section \<open>The output-size guard of decompression\<close>




section \<open>Progress dispatch\<close>

text \<open>
  A call that reaches the codec is the codec's run between the two stores to the slot.
  None of the five functions, when it returns, has changed the slot in the end; the codec's
  result is what the call returns; and the sink has received what the specification says.
\<close>

lemma call_run:
  assumes "compress_image_view stack_free (arg_ctxp a) (arg_data_type a) (arg_dim_x a)
             (arg_dim_y a) (arg_dim_z a) (arg_rgba a) (arg_out_data a) = Some (Inr img)"
  shows "astc_native_compress_image_ex stack_free a evs r st =
           (case astcenc_compress_image (arg_ctxp a) img (makeSwizzle (arg_in_swz a))
                   (arg_out_data a) (arg_out_len a) (arg_thread_index a) evs r
                   (st\<lparr>astc_native_tls_progress_handle := arg_progress_handle a\<rparr>) of
              None \<Rightarrow> None
            | Some res \<Rightarrow>
                Some (fst res, (snd res)\<lparr>astc_native_tls_progress_handle :=
                                            astc_native_tls_progress_handle st\<rparr>))"
  using assms by (simp add: Let_def)

lemma handle_preserved:
  "astc_native_compress_image_ex stack_free a evs r st = Some res \<Longrightarrow>
     astc_native_tls_progress_handle (snd res) = astc_native_tls_progress_handle st"
  "astcenc_compress_image ctx img swz od ol ti evs r st = Some res \<Longrightarrow>
     astc_native_tls_progress_handle (snd res) = astc_native_tls_progress_handle st"
  "astc_native_progress_callback p cs st = Some st' \<Longrightarrow>
     astc_native_tls_progress_handle st' = astc_native_tls_progress_handle st"
  "astc_native_go_progress h p cs st = Some st' \<Longrightarrow>
     astc_native_tls_progress_handle st' = astc_native_tls_progress_handle st"
  "sink_reenter cs st = Some st' \<Longrightarrow>
     astc_native_tls_progress_handle st' = astc_native_tls_progress_handle st"
proof (induction stack_free a evs r st and ctx img swz od ol ti evs r st and p cs st
         and h p cs st and cs st
         arbitrary: res and res and st' and st' and st'
         rule: astc_native_compress_image_ex_astcenc_compress_image_astc_native_progress_callback_astc_native_go_progress_sink_reenter.induct)
  case (1 stack_free a evs r st)
  let ?view = "compress_image_view stack_free (arg_ctxp a) (arg_data_type a) (arg_dim_x a)
                 (arg_dim_y a) (arg_dim_z a) (arg_rgba a) (arg_out_data a)"
  show ?case
  proof (cases ?view)
    case None
    with 1(2) show ?thesis by simp
  next
    case (Some v)
    show ?thesis
    proof (cases v)
      case (Inl e)
      with Some 1(2) show ?thesis by auto
    next
      case (Inr img)
      from Some Inr have v: "?view = Some (Inr img)" by simp
      from 1(2) obtain res1 where
        "res = (fst res1, (snd res1)\<lparr>astc_native_tls_progress_handle :=
                                         astc_native_tls_progress_handle st\<rparr>)"
        unfolding call_run [OF v] by (cases "astcenc_compress_image (arg_ctxp a) img
              (makeSwizzle (arg_in_swz a)) (arg_out_data a) (arg_out_len a)
              (arg_thread_index a) evs r
              (st\<lparr>astc_native_tls_progress_handle := arg_progress_handle a\<rparr>)") auto
      then show ?thesis by simp
    qed
  qed
next
  case (2 ctx img swz out_data out_len thread_index r st)
  then show ?case by auto
next
  case (3 ctx img swz out_data out_len thread_index p cs evs r st)
  from 3(3) obtain st1 where
    c: "astc_native_progress_callback p cs st = Some st1" and
    k: "astcenc_compress_image ctx img swz out_data out_len thread_index evs r st1 = Some res"
    by (auto split: option.splits)
  from 3(1) [OF c] 3(2) [OF c k] show ?case by simp
next
  case (4 progress cs st)
  show ?case
  proof (cases "astc_native_tls_progress_handle st = 0")
    case True
    with 4(2) show ?thesis by simp
  next
    case False
    with 4(2) have "astc_native_go_progress (astc_native_tls_progress_handle st) progress cs st
                      = Some st'"
      by (simp add: Let_def)
    from 4(1) [OF refl False this] show ?thesis .
  qed
next
  case (5 handle progress cs st)
  from 5(2) have "sink_reenter cs (st\<lparr>sink_calls := sink_calls st @ [(handle, progress)]\<rparr>)
                    = Some st'"
    by simp
  from 5(1) [OF this] show ?case by simp
next
  case (6 st)
  then show ?case by simp
next
  case (7 stack_free a evs r cs st)
  from 7(3) obtain res where
    c: "astc_native_compress_image_ex stack_free a evs r st = Some res" and
    k: "sink_reenter cs (snd res) = Some st'"
    by (auto split: option.splits)
  from 7(1) [OF c] 7(2) [OF c k] show ?case by simp
qed

lemma codec_result:
  "astcenc_compress_image ctx img swz od ol ti evs r st = Some res \<Longrightarrow> fst res = r"
proof (induction evs arbitrary: st)
  case Nil
  then show ?case by auto
next
  case (Cons e evs)
  then show ?case by (cases e) (auto split: option.splits)
qed

lemma deliveries:
  "astc_native_compress_image_ex stack_free a evs r st = Some res \<Longrightarrow>
     sink_calls (snd res)
       = sink_calls st @ spec_call_deliveries (Compress_image_ex stack_free a evs r)"
  "astcenc_compress_image ctx img swz od ol ti evs r st = Some res \<Longrightarrow>
     sink_calls (snd res)
       = sink_calls st @ (if astc_native_tls_progress_handle st = 0 then []
                          else spec_event_deliveries (astc_native_tls_progress_handle st) evs)"
  "astc_native_progress_callback p cs st = Some st' \<Longrightarrow>
     sink_calls st'
       = sink_calls st @ (if astc_native_tls_progress_handle st = 0 then []
                          else (astc_native_tls_progress_handle st, p)
                                 # spec_reentry_deliveries cs)"
  "astc_native_go_progress h p cs st = Some st' \<Longrightarrow>
     sink_calls st' = sink_calls st @ (h, p) # spec_reentry_deliveries cs"
  "sink_reenter cs st = Some st' \<Longrightarrow>
     sink_calls st' = sink_calls st @ spec_reentry_deliveries cs"
proof (induction stack_free a evs r st and ctx img swz od ol ti evs r st and p cs st
         and h p cs st and cs st
         arbitrary: res and res and st' and st' and st'
         rule: astc_native_compress_image_ex_astcenc_compress_image_astc_native_progress_callback_astc_native_go_progress_sink_reenter.induct)
  case (1 stack_free a evs r st)
  let ?view = "compress_image_view stack_free (arg_ctxp a) (arg_data_type a) (arg_dim_x a)
                 (arg_dim_y a) (arg_dim_z a) (arg_rgba a) (arg_out_data a)"
  show ?case
  proof (cases ?view)
    case None
    with 1(2) show ?thesis by simp
  next
    case (Some v)
    show ?thesis
    proof (cases v)
      case (Inl e)
      with Some 1(2) show ?thesis by auto
    next
      case (Inr img)
      let ?st1 = "st\<lparr>astc_native_tls_progress_handle := arg_progress_handle a\<rparr>"
      from Some Inr have v: "?view = Some (Inr img)" by simp
      from 1(2) obtain res1 where
        k: "astcenc_compress_image (arg_ctxp a) img (makeSwizzle (arg_in_swz a)) (arg_out_data a)
              (arg_out_len a) (arg_thread_index a) evs r ?st1 = Some res1" and
        r: "res = (fst res1, (snd res1)\<lparr>astc_native_tls_progress_handle :=
                                           astc_native_tls_progress_handle st\<rparr>)"
        unfolding call_run [OF v] by (cases "astcenc_compress_image (arg_ctxp a) img
              (makeSwizzle (arg_in_swz a)) (arg_out_data a) (arg_out_len a)
              (arg_thread_index a) evs r ?st1") auto
      from 1(1) [OF v refl refl refl refl k] r Some Inr show ?thesis
        by simp
    qed
  qed
next
  case (2 ctx img swz out_data out_len thread_index r st)
  then show ?case by auto
next
  case (3 ctx img swz out_data out_len thread_index p cs evs r st)
  from 3(3) obtain st1 where
    c: "astc_native_progress_callback p cs st = Some st1" and
    k: "astcenc_compress_image ctx img swz out_data out_len thread_index evs r st1 = Some res"
    by (auto split: option.splits)
  from 3(1) [OF c] 3(2) [OF c k] handle_preserved(3) [OF c] show ?case by simp
next
  case (4 progress cs st)
  show ?case
  proof (cases "astc_native_tls_progress_handle st = 0")
    case True
    with 4(2) show ?thesis by simp
  next
    case False
    with 4(2) have "astc_native_go_progress (astc_native_tls_progress_handle st) progress cs st
                      = Some st'"
      by (simp add: Let_def)
    from 4(1) [OF refl False this] False show ?thesis by simp
  qed
next
  case (5 handle progress cs st)
  from 5(2) have "sink_reenter cs (st\<lparr>sink_calls := sink_calls st @ [(handle, progress)]\<rparr>)
                    = Some st'"
    by simp
  from 5(1) [OF this] show ?case by simp
next
  case (6 st)
  then show ?case by simp
next
  case (7 stack_free a evs r cs st)
  from 7(3) obtain res where
    c: "astc_native_compress_image_ex stack_free a evs r st = Some res" and
    k: "sink_reenter cs (snd res) = Some st'"
    by (auto split: option.splits)
  from 7(1) [OF c] 7(2) [OF c k] show ?case by simp
qed

text \<open>The calls return when the stack has room for every table.\<close>

lemma returns:
  "call_fits (Compress_image_ex stack_free a evs r) \<Longrightarrow>
     astc_native_compress_image_ex stack_free a evs r st \<noteq> None"
  "events_fit evs \<Longrightarrow> astcenc_compress_image ctx img swz od ol ti evs r st \<noteq> None"
  "calls_fit cs \<Longrightarrow> astc_native_progress_callback p cs st \<noteq> None"
  "calls_fit cs \<Longrightarrow> astc_native_go_progress h p cs st \<noteq> None"
  "calls_fit cs \<Longrightarrow> sink_reenter cs st \<noteq> None"
proof (induction stack_free a evs r st and ctx img swz od ol ti evs r st and p cs st
         and h p cs st and cs st
         rule: astc_native_compress_image_ex_astcenc_compress_image_astc_native_progress_callback_astc_native_go_progress_sink_reenter.induct)
  case (1 stack_free a evs r st)
  let ?view = "compress_image_view stack_free (arg_ctxp a) (arg_data_type a) (arg_dim_x a)
                 (arg_dim_y a) (arg_dim_z a) (arg_rgba a) (arg_out_data a)"
  from 1(2) have fit: "8 * unat (arg_dim_z a) \<le> stack_free" and ev: "events_fit evs"
    by simp_all
  from fit have "?view \<noteq> None" by (rule compress_image_view_fits)
  then obtain v where Some: "?view = Some v" by blast
  show ?case
  proof (cases v)
    case (Inl e)
    with Some show ?thesis by simp
  next
    case (Inr img)
    with Some have v: "?view = Some (Inr img)" by simp
    from 1(1) [OF v refl refl refl refl ev] show ?thesis
      unfolding call_run [OF v] by (auto split: option.splits)
  qed
next
  case (2 ctx img swz out_data out_len thread_index r st)
  show ?case by simp
next
  case (3 ctx img swz out_data out_len thread_index p cs evs r st)
  from 3(3) have cs: "calls_fit cs" and ev: "events_fit evs" by simp_all
  from 3(1) [OF cs] obtain st1 where c: "astc_native_progress_callback p cs st = Some st1"
    by blast
  from 3(2) [OF c ev] c show ?case by simp
next
  case (4 progress cs st)
  show ?case
  proof (cases "astc_native_tls_progress_handle st = 0")
    case True
    then show ?thesis by simp
  next
    case False
    from 4(1) [OF refl False 4(2)] False show ?thesis by (simp add: Let_def)
  qed
next
  case (5 handle progress cs st)
  from 5(1) [OF 5(2)] show ?case by simp
next
  case (6 st)
  show ?case by simp
next
  case (7 stack_free a evs r cs st)
  from 7(3) have c: "call_fits (Compress_image_ex stack_free a evs r)" and cs: "calls_fit cs"
    by simp_all
  from 7(1) [OF c] obtain res where r: "astc_native_compress_image_ex stack_free a evs r st = Some res"
    by blast
  from 7(2) [OF r cs] r show ?case by simp
qed

text \<open>Events during which the sink makes no call, and events with no handle registered.\<close>

lemma plain_events_deliveries:
  "spec_event_deliveries h (map (\<lambda>p. Progress p []) ps) = map (Pair h) ps"
  by (induction ps) simp_all

lemma plain_events_fit: "events_fit (map (\<lambda>p. Progress p []) ps)"
  by (induction ps) simp_all

lemma no_handle_run:
  "astc_native_tls_progress_handle st = 0 \<Longrightarrow>
   astcenc_compress_image ctx img swz od ol ti evs r st = Some (r, st)"
proof (induction evs)
  case Nil
  show ?case by simp
next
  case (Cons e evs)
  then show ?case by (cases e) simp
qed

lemma call_result:
  assumes "compress_image_view stack_free (arg_ctxp a) (arg_data_type a) (arg_dim_x a)
             (arg_dim_y a) (arg_dim_z a) (arg_rgba a) (arg_out_data a) = Some (Inr img)"
      and "astc_native_compress_image_ex stack_free a evs r st = Some res"
  shows "fst res = r"
proof -
  let ?k = "astcenc_compress_image (arg_ctxp a) img (makeSwizzle (arg_in_swz a))
              (arg_out_data a) (arg_out_len a) (arg_thread_index a) evs r
              (st\<lparr>astc_native_tls_progress_handle := arg_progress_handle a\<rparr>)"
  from assms(2) obtain res1 where k: "?k = Some res1" and r: "fst res = fst res1"
    unfolding call_run [OF assms(1)] by (cases ?k) auto
  from codec_result [OF k] r show ?thesis by simp
qed

lemma call_returns:
  assumes "compress_image_view stack_free (arg_ctxp a) (arg_data_type a) (arg_dim_x a)
             (arg_dim_y a) (arg_dim_z a) (arg_rgba a) (arg_out_data a) = Some (Inr img)"
      and "events_fit evs"
  shows "astc_native_compress_image_ex stack_free a evs r st \<noteq> None"
  using returns(2) [OF assms(2)]
  unfolding call_run [OF assms(1)]
  by (auto split: option.splits)

text \<open>
  Claim C3, as amended. For a compress call that reaches the codec with a nonzero progress
  handle \<open>H\<close>, every progress event that the codec raises through the trampoline during the
  call delivers exactly \<open>H\<close>, with the event's value, to the sink, once per event and in
  order: the sink's record grows by one \<open>(H, p)\<close> per event (followed, when the sink calls
  the bridge again from within the delivery, by what those calls deliver). This is the
  record when the call returns, and the call returns unless one of the calls that the sink
  makes finds no room on the stack for its table. The handle 0 means "no handle": for it
  the trampoline delivers nothing.
\<close>

theorem progress_delivery:
  assumes "compress_image_view stack_free (arg_ctxp a) (arg_data_type a) (arg_dim_x a)
             (arg_dim_y a) (arg_dim_z a) (arg_rgba a) (arg_out_data a) = Some (Inr img)"
  shows "(arg_progress_handle a \<noteq> 0 \<longrightarrow>
            map_option (sink_calls \<circ> snd)
              (astc_native_compress_image_ex stack_free a (map (\<lambda>p. Progress p []) ps) r st)
              = Some (sink_calls st @ map (Pair (arg_progress_handle a)) ps))
       \<and> (arg_progress_handle a \<noteq> 0 \<longrightarrow>
            (\<forall>res. astc_native_compress_image_ex stack_free a evs r st = Some res \<longrightarrow>
               sink_calls (snd res)
                 = sink_calls st @ spec_event_deliveries (arg_progress_handle a) evs))
       \<and> (arg_progress_handle a \<noteq> 0 \<and> events_fit evs \<longrightarrow>
            map_option (sink_calls \<circ> snd) (astc_native_compress_image_ex stack_free a evs r st)
              = Some (sink_calls st @ spec_event_deliveries (arg_progress_handle a) evs))
       \<and> (arg_progress_handle a = 0 \<longrightarrow>
            map_option (sink_calls \<circ> snd) (astc_native_compress_image_ex stack_free a evs r st)
              = Some (sink_calls st))"
proof -
  let ?H = "arg_progress_handle a"
  have d: "sink_calls (snd res) = sink_calls st @ spec_event_deliveries ?H es"
    if "?H \<noteq> 0" "astc_native_compress_image_ex stack_free a es r st = Some res" for es res
    using deliveries(1) [OF that(2)] that(1) assms by simp
  have f: "map_option (sink_calls \<circ> snd) (astc_native_compress_image_ex stack_free a es r st)
             = Some (sink_calls st @ spec_event_deliveries ?H es)"
    if "?H \<noteq> 0" "events_fit es" for es
  proof -
    from call_returns [OF assms that(2)] obtain res where
      r: "astc_native_compress_image_ex stack_free a es r st = Some res"
      by blast
    from d [OF that(1) r] r show ?thesis by simp
  qed
  have c1: "map_option (sink_calls \<circ> snd)
              (astc_native_compress_image_ex stack_free a (map (\<lambda>p. Progress p []) ps) r st)
              = Some (sink_calls st @ map (Pair ?H) ps)"
    if "?H \<noteq> 0"
    using f [OF that plain_events_fit] by (simp only: plain_events_deliveries)
  have c2: "\<forall>res. astc_native_compress_image_ex stack_free a evs r st = Some res \<longrightarrow>
               sink_calls (snd res) = sink_calls st @ spec_event_deliveries ?H evs"
    if "?H \<noteq> 0"
    using d [OF that] by blast
  have c3: "map_option (sink_calls \<circ> snd) (astc_native_compress_image_ex stack_free a evs r st)
              = Some (sink_calls st @ spec_event_deliveries ?H evs)"
    if "?H \<noteq> 0 \<and> events_fit evs"
    using that f by blast
  have c4: "map_option (sink_calls \<circ> snd) (astc_native_compress_image_ex stack_free a evs r st)
              = Some (sink_calls st)"
    if "?H = 0"
  proof -
    have "astcenc_compress_image (arg_ctxp a) img (makeSwizzle (arg_in_swz a))
            (arg_out_data a) (arg_out_len a) (arg_thread_index a) evs r
            (st\<lparr>astc_native_tls_progress_handle := ?H\<rparr>)
          = Some (r, st\<lparr>astc_native_tls_progress_handle := ?H\<rparr>)"
      by (rule no_handle_run) (simp add: that)
    then show ?thesis
      by (simp only: call_run [OF assms]) simp
  qed
  show ?thesis
    by (intro conjI impI; (rule c1 c2 c3 c4); assumption)
qed

theorem progress_delivery_witness:
  "map_option (sink_calls \<circ> snd) (astc_native_compress_image_ex 4096
       \<lparr>arg_ctxp = 1, arg_data_type = ASTCENC_TYPE_U8, arg_dim_x = 4, arg_dim_y = 4,
        arg_dim_z = 1, arg_rgba = 1000, arg_in_swz = None, arg_out_data = 2000,
        arg_out_len = 16, arg_thread_index = 0, arg_progress_handle = 77\<rparr>
       (map (\<lambda>p. Progress p []) [1, 2 :: nat]) ASTCENC_SUCCESS
       \<lparr>astc_native_tls_progress_handle = 0, sink_calls = []\<rparr>)
     = Some [(77, 1), (77, 2)]
   \<and> map_option (sink_calls \<circ> snd) (astc_native_compress_image_ex 4096
       \<lparr>arg_ctxp = 1, arg_data_type = ASTCENC_TYPE_U8, arg_dim_x = 4, arg_dim_y = 4,
        arg_dim_z = 1, arg_rgba = 1000, arg_in_swz = None, arg_out_data = 2000,
        arg_out_len = 16, arg_thread_index = 0, arg_progress_handle = 77\<rparr>
       [Progress (1 :: nat)
          [Compress_image_ex 2048
             \<lparr>arg_ctxp = 1, arg_data_type = ASTCENC_TYPE_U8, arg_dim_x = 4, arg_dim_y = 4,
              arg_dim_z = 1, arg_rgba = 1000, arg_in_swz = None, arg_out_data = 2000,
              arg_out_len = 16, arg_thread_index = 0, arg_progress_handle = 88\<rparr>
             [Progress 10 []] ASTCENC_SUCCESS],
        Progress 2 []]
       ASTCENC_SUCCESS
       \<lparr>astc_native_tls_progress_handle = 0, sink_calls = []\<rparr>)
     = Some [(77, 1), (88, 10), (77, 2)]"
proof -
  let ?a = "\<lparr>arg_ctxp = 1, arg_data_type = ASTCENC_TYPE_U8, arg_dim_x = 4, arg_dim_y = 4,
        arg_dim_z = 1, arg_rgba = 1000, arg_in_swz = None, arg_out_data = 2000,
        arg_out_len = 16, arg_thread_index = 0, arg_progress_handle = 77\<rparr>"
  let ?b = "\<lparr>arg_ctxp = 1, arg_data_type = ASTCENC_TYPE_U8, arg_dim_x = 4, arg_dim_y = 4,
        arg_dim_z = 1, arg_rgba = 1000, arg_in_swz = None, arg_out_data = 2000,
        arg_out_len = 16, arg_thread_index = 0, arg_progress_handle = 88\<rparr>"
  let ?img = "\<lparr>img_dim_x = 4, img_dim_y = 4, img_dim_z = 1, img_data_type = ASTCENC_TYPE_U8,
                img_data = Some (spec_slice_table 1000 4 4 1 1)\<rparr>"
  let ?evs = "[Progress (1 :: nat) [Compress_image_ex 2048 ?b [Progress 10 []] ASTCENC_SUCCESS],
               Progress 2 []]"
  have v: "compress_image_view 4096 (arg_ctxp ?a) (arg_data_type ?a) (arg_dim_x ?a)
             (arg_dim_y ?a) (arg_dim_z ?a) (arg_rgba ?a) (arg_out_data ?a) = Some (Inr ?img)"
    by (simp add: compress_image_view_table spec_elementSize_def)
  have w: "compress_image_view 2048 (arg_ctxp ?b) (arg_data_type ?b) (arg_dim_x ?b)
             (arg_dim_y ?b) (arg_dim_z ?b) (arg_rgba ?b) (arg_out_data ?b) = Some (Inr ?img)"
    by (simp add: compress_image_view_table spec_elementSize_def)
  have d: "spec_event_deliveries (arg_progress_handle ?a) ?evs = [(77, 1), (88, 10), (77, 2)]"
    using w by simp
  have fit: "events_fit ?evs"
    by simp
  from progress_delivery [OF v, where ps = "[1, 2 :: nat]" and r = ASTCENC_SUCCESS
      and st = "\<lparr>astc_native_tls_progress_handle = 0, sink_calls = []\<rparr>" and evs = ?evs]
    fit
  show ?thesis
    by (simp only: d) (simp del: astc_native_compress_image_ex.simps map_option_eq_Some)
qed

text \<open>
  The claim as stated, for all handle values, fails at \<open>H = 0\<close>: the call reaches the codec
  and succeeds, the codec raises one event, and the sink receives nothing.
\<close>

theorem progress_delivery_counterexample:
  "astc_native_compress_image_ex 4096
       \<lparr>arg_ctxp = 1, arg_data_type = ASTCENC_TYPE_U8, arg_dim_x = 4, arg_dim_y = 4,
        arg_dim_z = 1, arg_rgba = 1000, arg_in_swz = None, arg_out_data = 2000,
        arg_out_len = 16, arg_thread_index = 0, arg_progress_handle = 0\<rparr>
       [Progress (1 :: nat) []] ASTCENC_SUCCESS
       \<lparr>astc_native_tls_progress_handle = 0, sink_calls = []\<rparr>
     = Some (ASTCENC_SUCCESS, \<lparr>astc_native_tls_progress_handle = 0, sink_calls = []\<rparr>)"
  by (simp add: compress_image_view_table Let_def)


section \<open>Block info extraction\<close>

text \<open>
  Claim C10. With a non-null context, block pointer and output record, when the codec's
  decode of the block returns an error, \<open>astc_native_get_block_info\<close> returns that error and
  the caller's record is what it was: no field has been copied.
\<close>

theorem get_block_info_atomic:
  assumes "ctxp \<noteq> 0" and "codec ctxp block = (err, info)" and "err \<noteq> ASTCENC_SUCCESS"
  shows "astc_native_get_block_info codec ctxp (Some block) (Some out) = (err, Some out)"
  using assms by (simp add: astc_native_get_block_info_def)

theorem get_block_info_atomic_witness:
  "astc_native_get_block_info
     (\<lambda>c b. (ASTCENC_ERR_CODEC 9,
      \<lparr>cbi_profile = 1, cbi_block_x = 0, cbi_block_y = 0, cbi_block_z = 0,
        cbi_texel_count = 36, cbi_is_error_block = True, cbi_is_constant_block = False,
        cbi_is_hdr_block = False, cbi_is_dual_plane_block = False,
        cbi_partition_count = 0, cbi_partition_index = 0, cbi_dual_plane_component = 0,
        cbi_color_endpoint_modes = [], cbi_color_level_count = 0,
        cbi_weight_level_count = 0, cbi_weight_x = 0, cbi_weight_y = 0, cbi_weight_z = 0,
        cbi_color_endpoints = [], cbi_weight_values_plane1 = [2 :: nat],
        cbi_weight_values_plane2 = [], cbi_partition_assignment = []\<rparr>))
     1 (Some [0, 0, 0, 0, 0, 0, 0, 0, 0, 0, 0, 0, 0, 0, 0, 0])
     (Some
      \<lparr>bi_profile = 7, bi_block_x = 0, bi_block_y = 0, bi_block_z = 0,
        bi_texel_count = 16, bi_is_error_block = 0, bi_is_constant_block = 0,
        bi_is_hdr_block = 0, bi_is_dual_plane_block = 0, bi_partition_count = 0,
        bi_partition_index = 0, bi_dual_plane_component = 0,
        bi_color_endpoint_modes = [], bi_color_level_count = 0,
        bi_weight_level_count = 0, bi_weight_x = 0, bi_weight_y = 0, bi_weight_z = 0,
        bi_color_endpoints = [], bi_weight_values_plane1 = [1 :: nat],
        bi_weight_values_plane2 = [], bi_partition_assignment = []\<rparr>)
   = (ASTCENC_ERR_CODEC 9,
      Some
      \<lparr>bi_profile = 7, bi_block_x = 0, bi_block_y = 0, bi_block_z = 0,
        bi_texel_count = 16, bi_is_error_block = 0, bi_is_constant_block = 0,
        bi_is_hdr_block = 0, bi_is_dual_plane_block = 0, bi_partition_count = 0,
        bi_partition_index = 0, bi_dual_plane_component = 0,
        bi_color_endpoint_modes = [], bi_color_level_count = 0,
        bi_weight_level_count = 0, bi_weight_x = 0, bi_weight_y = 0, bi_weight_z = 0,
        bi_color_endpoints = [], bi_weight_values_plane1 = [1 :: nat],
        bi_weight_values_plane2 = [], bi_partition_assignment = []\<rparr>)"
  using get_block_info_atomic [of 1
      "\<lambda>c b. (ASTCENC_ERR_CODEC 9,
      \<lparr>cbi_profile = 1, cbi_block_x = 0, cbi_block_y = 0, cbi_block_z = 0,
        cbi_texel_count = 36, cbi_is_error_block = True, cbi_is_constant_block = False,
        cbi_is_hdr_block = False, cbi_is_dual_plane_block = False,
        cbi_partition_count = 0, cbi_partition_index = 0, cbi_dual_plane_component = 0,
        cbi_color_endpoint_modes = [], cbi_color_level_count = 0,
        cbi_weight_level_count = 0, cbi_weight_x = 0, cbi_weight_y = 0, cbi_weight_z = 0,
        cbi_color_endpoints = [], cbi_weight_values_plane1 = [2 :: nat],
        cbi_weight_values_plane2 = [], cbi_partition_assignment = []\<rparr>)"
      "[0, 0, 0, 0, 0, 0, 0, 0, 0, 0, 0, 0, 0, 0, 0, 0]" "ASTCENC_ERR_CODEC 9"
      "\<lparr>cbi_profile = 1, cbi_block_x = 0, cbi_block_y = 0, cbi_block_z = 0,
        cbi_texel_count = 36, cbi_is_error_block = True, cbi_is_constant_block = False,
        cbi_is_hdr_block = False, cbi_is_dual_plane_block = False,
        cbi_partition_count = 0, cbi_partition_index = 0, cbi_dual_plane_component = 0,
        cbi_color_endpoint_modes = [], cbi_color_level_count = 0,
        cbi_weight_level_count = 0, cbi_weight_x = 0, cbi_weight_y = 0, cbi_weight_z = 0,
        cbi_color_endpoints = [], cbi_weight_values_plane1 = [2 :: nat],
        cbi_weight_values_plane2 = [], cbi_partition_assignment = []\<rparr>"
      "\<lparr>bi_profile = 7, bi_block_x = 0, bi_block_y = 0, bi_block_z = 0,
        bi_texel_count = 16, bi_is_error_block = 0, bi_is_constant_block = 0,
        bi_is_hdr_block = 0, bi_is_dual_plane_block = 0, bi_partition_count = 0,
        bi_partition_index = 0, bi_dual_plane_component = 0,
        bi_color_endpoint_modes = [], bi_color_level_count = 0,
        bi_weight_level_count = 0, bi_weight_x = 0, bi_weight_y = 0, bi_weight_z = 0,
        bi_color_endpoints = [], bi_weight_values_plane1 = [1 :: nat],
        bi_weight_values_plane2 = [], bi_partition_assignment = []\<rparr>"]
  by simp

text \<open>
  Claim C4. Whatever the slot holds before a compress call, it holds the same after the call
  has returned: on the early returns, which leave the thread's state alone, and after the
  codec has run, whatever the codec returns (the call returns that result) and whatever the
  sink did meanwhile. The calls that the sink makes from within a delivery leave the slot as
  it was, and so does every invocation of the trampoline: when an outer call has registered
  \<open>A\<close> and an inner call registers \<open>B\<close>, the slot holds \<open>A\<close> again after the inner call, and
  the next event of the outer call is delivered with \<open>A\<close>. And the call does return,
  provided the stack has room for its table and for the tables of the calls that the sink
  makes.
\<close>

theorem progress_slot_restored:
  "(\<forall>res. astc_native_compress_image_ex stack_free a evs r st = Some res \<longrightarrow>
      astc_native_tls_progress_handle (snd res) = astc_native_tls_progress_handle st)
   \<and> (\<forall>st'. sink_reenter cs st = Some st' \<longrightarrow>
         astc_native_tls_progress_handle st' = astc_native_tls_progress_handle st)
   \<and> (\<forall>st'. astc_native_progress_callback p cs st = Some st' \<longrightarrow>
         astc_native_tls_progress_handle st' = astc_native_tls_progress_handle st)
   \<and> (call_fits (Compress_image_ex stack_free a evs r) \<longrightarrow>
        map_option (astc_native_tls_progress_handle \<circ> snd)
          (astc_native_compress_image_ex stack_free a evs r st)
          = Some (astc_native_tls_progress_handle st))
   \<and> (compress_image_view stack_free (arg_ctxp a) (arg_data_type a) (arg_dim_x a)
          (arg_dim_y a) (arg_dim_z a) (arg_rgba a) (arg_out_data a) = Some (Inl e) \<longrightarrow>
        astc_native_compress_image_ex stack_free a evs r st = Some (e, st))
   \<and> (compress_image_view stack_free (arg_ctxp a) (arg_data_type a) (arg_dim_x a)
          (arg_dim_y a) (arg_dim_z a) (arg_rgba a) (arg_out_data a) = Some (Inr img) \<longrightarrow>
        (\<forall>res. astc_native_compress_image_ex stack_free a evs r st = Some res \<longrightarrow> fst res = r))
   \<and> (compress_image_view stack_free (arg_ctxp a) (arg_data_type a) (arg_dim_x a)
          (arg_dim_y a) (arg_dim_z a) (arg_rgba a) (arg_out_data a) = Some (Inr img)
        \<and> arg_progress_handle a \<noteq> 0 \<longrightarrow>
        (\<forall>res. astc_native_compress_image_ex stack_free a
                  [Progress p1 [Compress_image_ex stack_free_b b evs_b r_b], Progress p2 []] r st
                = Some res \<longrightarrow>
           sink_calls (snd res)
             = sink_calls st @ [(arg_progress_handle a, p1)]
                 @ spec_call_deliveries (Compress_image_ex stack_free_b b evs_b r_b)
                 @ [(arg_progress_handle a, p2)]))"
proof -
  let ?view = "compress_image_view stack_free (arg_ctxp a) (arg_data_type a) (arg_dim_x a)
          (arg_dim_y a) (arg_dim_z a) (arg_rgba a) (arg_out_data a)"
  have c1: "\<forall>res. astc_native_compress_image_ex stack_free a evs r st = Some res \<longrightarrow>
      astc_native_tls_progress_handle (snd res) = astc_native_tls_progress_handle st"
    by (intro allI impI) (rule handle_preserved(1))
  have c2: "\<forall>st'. sink_reenter cs st = Some st' \<longrightarrow>
         astc_native_tls_progress_handle st' = astc_native_tls_progress_handle st"
    by (intro allI impI) (rule handle_preserved(5))
  have c3: "\<forall>st'. astc_native_progress_callback p cs st = Some st' \<longrightarrow>
         astc_native_tls_progress_handle st' = astc_native_tls_progress_handle st"
    by (intro allI impI) (rule handle_preserved(3))
  have c4: "map_option (astc_native_tls_progress_handle \<circ> snd)
              (astc_native_compress_image_ex stack_free a evs r st)
              = Some (astc_native_tls_progress_handle st)"
    if "call_fits (Compress_image_ex stack_free a evs r)"
  proof -
    from returns(1) [OF that] obtain res where
      r: "astc_native_compress_image_ex stack_free a evs r st = Some res"
      by blast
    from handle_preserved(1) [OF r] show ?thesis
      by (simp only: r) simp
  qed
  have c5: "astc_native_compress_image_ex stack_free a evs r st = Some (e, st)"
    if "?view = Some (Inl e)"
    using that by simp
  have c6: "\<forall>res. astc_native_compress_image_ex stack_free a evs r st = Some res \<longrightarrow> fst res = r"
    if "?view = Some (Inr img)"
    using call_result [OF that] by blast
  have c7: "\<forall>res. astc_native_compress_image_ex stack_free a
                  [Progress p1 [Compress_image_ex stack_free_b b evs_b r_b], Progress p2 []] r st
                = Some res \<longrightarrow>
           sink_calls (snd res)
             = sink_calls st @ [(arg_progress_handle a, p1)]
                 @ spec_call_deliveries (Compress_image_ex stack_free_b b evs_b r_b)
                 @ [(arg_progress_handle a, p2)]"
    if "?view = Some (Inr img) \<and> arg_progress_handle a \<noteq> 0"
  proof (intro allI impI)
    fix res
    assume "astc_native_compress_image_ex stack_free a
                  [Progress p1 [Compress_image_ex stack_free_b b evs_b r_b], Progress p2 []] r st
                = Some res"
    from deliveries(1) [OF this] that
    show "sink_calls (snd res)
             = sink_calls st @ [(arg_progress_handle a, p1)]
                 @ spec_call_deliveries (Compress_image_ex stack_free_b b evs_b r_b)
                 @ [(arg_progress_handle a, p2)]"
      by (simp only: spec_call_deliveries.simps spec_event_deliveries.simps
            spec_reentry_deliveries.simps option.case sum.case if_False append_Nil2
            append_Cons append_Nil)
  qed
  show ?thesis
    by (intro conjI impI; (rule c1 c2 c3 c4 c5 c6 c7); assumption?)
qed

theorem progress_slot_restored_witness:
  "map_option (astc_native_tls_progress_handle \<circ> snd) (astc_native_compress_image_ex 4096
       \<lparr>arg_ctxp = 1, arg_data_type = ASTCENC_TYPE_U8, arg_dim_x = 4, arg_dim_y = 4,
        arg_dim_z = 1, arg_rgba = 1000, arg_in_swz = None, arg_out_data = 2000,
        arg_out_len = 16, arg_thread_index = 0, arg_progress_handle = 77\<rparr>
       [Progress (1 :: nat)
          [Compress_image_ex 2048
             \<lparr>arg_ctxp = 1, arg_data_type = ASTCENC_TYPE_U8, arg_dim_x = 4, arg_dim_y = 4,
        arg_dim_z = 1, arg_rgba = 1000, arg_in_swz = None, arg_out_data = 2000,
        arg_out_len = 16, arg_thread_index = 0, arg_progress_handle = 88\<rparr>
             [Progress 10 []] ASTCENC_SUCCESS],
        Progress 2 []]
       (ASTCENC_ERR_CODEC 5)
       \<lparr>astc_native_tls_progress_handle = 33, sink_calls = []\<rparr>) = Some 33
   \<and> map_option fst (astc_native_compress_image_ex 4096
       \<lparr>arg_ctxp = 1, arg_data_type = ASTCENC_TYPE_U8, arg_dim_x = 4, arg_dim_y = 4,
        arg_dim_z = 1, arg_rgba = 1000, arg_in_swz = None, arg_out_data = 2000,
        arg_out_len = 16, arg_thread_index = 0, arg_progress_handle = 77\<rparr>
       [Progress (1 :: nat)
          [Compress_image_ex 2048
             \<lparr>arg_ctxp = 1, arg_data_type = ASTCENC_TYPE_U8, arg_dim_x = 4, arg_dim_y = 4,
        arg_dim_z = 1, arg_rgba = 1000, arg_in_swz = None, arg_out_data = 2000,
        arg_out_len = 16, arg_thread_index = 0, arg_progress_handle = 88\<rparr>
             [Progress 10 []] ASTCENC_SUCCESS],
        Progress 2 []]
       (ASTCENC_ERR_CODEC 5)
       \<lparr>astc_native_tls_progress_handle = 33, sink_calls = []\<rparr>) = Some (ASTCENC_ERR_CODEC 5)
   \<and> map_option (sink_calls \<circ> snd) (astc_native_compress_image_ex 4096
       \<lparr>arg_ctxp = 1, arg_data_type = ASTCENC_TYPE_U8, arg_dim_x = 4, arg_dim_y = 4,
        arg_dim_z = 1, arg_rgba = 1000, arg_in_swz = None, arg_out_data = 2000,
        arg_out_len = 16, arg_thread_index = 0, arg_progress_handle = 77\<rparr>
       [Progress (1 :: nat)
          [Compress_image_ex 2048
             \<lparr>arg_ctxp = 1, arg_data_type = ASTCENC_TYPE_U8, arg_dim_x = 4, arg_dim_y = 4,
        arg_dim_z = 1, arg_rgba = 1000, arg_in_swz = None, arg_out_data = 2000,
        arg_out_len = 16, arg_thread_index = 0, arg_progress_handle = 88\<rparr>
             [Progress 10 []] ASTCENC_SUCCESS],
        Progress 2 []]
       (ASTCENC_ERR_CODEC 5)
       \<lparr>astc_native_tls_progress_handle = 33, sink_calls = []\<rparr>)
       = Some [(77, 1), (88, 10), (77, 2)]"
proof -
  let ?a = "\<lparr>arg_ctxp = 1, arg_data_type = ASTCENC_TYPE_U8, arg_dim_x = 4, arg_dim_y = 4,
        arg_dim_z = 1, arg_rgba = 1000, arg_in_swz = None, arg_out_data = 2000,
        arg_out_len = 16, arg_thread_index = 0, arg_progress_handle = 77\<rparr>"
  let ?b = "\<lparr>arg_ctxp = 1, arg_data_type = ASTCENC_TYPE_U8, arg_dim_x = 4, arg_dim_y = 4,
        arg_dim_z = 1, arg_rgba = 1000, arg_in_swz = None, arg_out_data = 2000,
        arg_out_len = 16, arg_thread_index = 0, arg_progress_handle = 88\<rparr>"
  let ?img = "\<lparr>img_dim_x = 4, img_dim_y = 4, img_dim_z = 1, img_data_type = ASTCENC_TYPE_U8,
                img_data = Some (spec_slice_table 1000 4 4 1 1)\<rparr>"
  let ?evs = "[Progress (1 :: nat) [Compress_image_ex 2048 ?b [Progress 10 []] ASTCENC_SUCCESS],
               Progress 2 []]"
  let ?st = "\<lparr>astc_native_tls_progress_handle = 33, sink_calls = [] :: (ptr \<times> nat) list\<rparr>"
  let ?run = "astc_native_compress_image_ex 4096 ?a ?evs (ASTCENC_ERR_CODEC 5) ?st"
  have v: "compress_image_view 4096 (arg_ctxp ?a) (arg_data_type ?a) (arg_dim_x ?a)
             (arg_dim_y ?a) (arg_dim_z ?a) (arg_rgba ?a) (arg_out_data ?a) = Some (Inr ?img)"
    by (simp add: compress_image_view_table spec_elementSize_def)
  have w: "compress_image_view 2048 (arg_ctxp ?b) (arg_data_type ?b) (arg_dim_x ?b)
             (arg_dim_y ?b) (arg_dim_z ?b) (arg_rgba ?b) (arg_out_data ?b) = Some (Inr ?img)"
    by (simp add: compress_image_view_table spec_elementSize_def)
  have fit: "call_fits (Compress_image_ex 4096 ?a ?evs (ASTCENC_ERR_CODEC 5))"
    by simp
  have d: "spec_call_deliveries (Compress_image_ex 2048 ?b [Progress (10 :: nat) []] ASTCENC_SUCCESS)
             = [(88, 10)]"
    using w by simp
  note t = progress_slot_restored [where a = ?a and img = ?img and b = ?b
      and stack_free = 4096 and stack_free_b = 2048 and evs = ?evs
      and r = "ASTCENC_ERR_CODEC 5" and ?p1.0 = "1 :: nat" and ?p2.0 = "2 :: nat"
      and evs_b = "[Progress 10 []]" and r_b = ASTCENC_SUCCESS and st = ?st]
  from t [THEN conjunct2, THEN conjunct2, THEN conjunct2, THEN conjunct1, THEN mp, OF fit]
  obtain res where r: "?run = Some res"
    by (cases ?run) simp_all
  from t v r have "astc_native_tls_progress_handle (snd res) = 33" "fst res = ASTCENC_ERR_CODEC 5"
      "sink_calls (snd res) = [(77, 1), (88, 10), (77, 2)]"
    by (simp_all only: d) simp_all
  then show ?thesis
    by (simp only: r) simp
qed

end
